theory Spec2Isabelle
  imports Complex_Main "HOL-Library.AList" "HOL-Library.Sublist"
begin

section \<open>Exceptions and outcomes\<close>

text \<open>
  The exceptions that the modelled code paths of \<^verbatim>\<open>train.py\<close> and \<^verbatim>\<open>save_model.py\<close> can
  raise. \<open>CheckpointError\<close> is the name used by the specification's error taxonomy; the
  sources define no exception class of their own, and no function below produces it.
\<close>

datatype error =
    ZeroDivisionError
  | KeyError string
  | TypeError
  | FileNotFoundError
  | UnpicklingError
  | YAMLError
  | RuntimeError
  | CheckpointError

text \<open>
  A method of the trainer mutates the object and either returns or raises. An exception
  leaves the object as it was when the exception was raised, so both outcomes carry the
  state.
\<close>

datatype 's outcome = Done 's | Raised error 's

fun state_of :: "'s outcome \<Rightarrow> 's" where
  "state_of (Done s) = s"
| "state_of (Raised e s) = s"

fun and_then :: "'s outcome \<Rightarrow> ('s \<Rightarrow> 's outcome) \<Rightarrow> 's outcome" where
  "and_then (Done s) f = f s"
| "and_then (Raised e s) f = Raised e s"

section \<open>Data model\<close>

text \<open>The keys of \<^verbatim>\<open>config['trainer']\<close> that the trainer reads.\<close>

record trainer_config =
  checkpoint_path :: string
  cfg_loss_fn :: string
  log_interval_steps :: int
  save_interval_steps :: int
  eval_interval_steps :: int
  train_max_steps :: int
  distributed :: bool

text \<open>A batch as the collator delivers it: \<^verbatim>\<open>batch["mel"]\<close> and \<^verbatim>\<open>batch["label"]\<close>.\<close>

record 't batch =
  mel :: 't
  label :: 't

text \<open>
  The \<^verbatim>\<open>criterion\<close> object handed to the trainer is used in two ways: it is subscripted
  (\<^verbatim>\<open>criterion[config['loss_fn']]\<close>) and it is called (\<^verbatim>\<open>self.criterion(y, y_)\<close>). A Python
  object answers each of the two or raises.
\<close>

record ('t, 'v) criterion_obj =
  getitem :: "string \<Rightarrow> error + ('t \<Rightarrow> 't \<Rightarrow> 'v)"
  call :: "'t \<Rightarrow> 't \<Rightarrow> error + 'v"

text \<open>
  A \<^verbatim>\<open>dict\<close> from names to loss functions: subscripting looks the key up (\<open>KeyError\<close> when it
  is missing), calling it raises \<open>TypeError\<close> (a dict is not callable).
\<close>

definition dict_obj :: "(string \<times> ('t \<Rightarrow> 't \<Rightarrow> 'v)) list \<Rightarrow> ('t, 'v) criterion_obj" where
  "dict_obj d =
     \<lparr> getitem = (\<lambda>k. case map_of d k of None \<Rightarrow> Inl (KeyError k) | Some f \<Rightarrow> Inr f),
       call = (\<lambda>y y'. Inl TypeError) \<rparr>"

text \<open>The registry built in \<^verbatim>\<open>main\<close>: \<^verbatim>\<open>{'MSE': MSELoss(), 'BCE': BCELoss()}\<close>.\<close>

definition main_criterion :: "('t \<Rightarrow> 't \<Rightarrow> 'v) \<Rightarrow> ('t \<Rightarrow> 't \<Rightarrow> 'v) \<Rightarrow> ('t, 'v) criterion_obj" where
  "main_criterion mse bce = dict_obj [(''MSE'', mse), (''BCE'', bce)]"

text \<open>
  The bundle written by \<^verbatim>\<open>torch.save\<close>: a dict with the keys \<^verbatim>\<open>optimizer\<close>, \<^verbatim>\<open>scheduler\<close>,
  \<^verbatim>\<open>steps\<close>, \<^verbatim>\<open>epochs\<close>, \<^verbatim>\<open>model\<close>. A field is \<open>None\<close> when the key is missing from the
  dict that was unpickled.
\<close>

record ('p, 'o, 'sc) state_bundle =
  b_optimizer :: "'o option"
  b_scheduler :: "'sc option"
  b_steps :: "int option"
  b_epochs :: "int option"
  b_model :: "'p option"

text \<open>The configuration document read by \<^verbatim>\<open>save_model\<close>.\<close>

record 'c export_config =
  trainer_checkpoint_path :: string
  version :: string
  model_config :: 'c

text \<open>What a path of the file system holds.\<close>

datatype ('p, 'o, 'sc, 'c) fs_entry =
    Checkpoint "('p, 'o, 'sc) state_bundle"
  | Config_yaml "'c export_config"
  | Package 'p

text \<open>
  The observable effects, in the order in which they happen. \<open>Tqdm_update s\<close> is the
  progress-bar update of \<^verbatim>\<open>_train_step\<close>, with the value of the step counter after the
  increment; \<open>Torch_save path s\<close> is the call of \<^verbatim>\<open>torch.save\<close> with the step count stored
  in the bundle.
\<close>

datatype 'v event =
    Tqdm_update int
  | Log_metric string 'v int
  | Log_score string 'v
  | Add_scalar string 'v int
  | Torch_save string int
  | Log_saved int
  | Log_eval_start int
  | Log_eval_finished int
  | Log_epoch int int
  | Set_epoch int
  | Log_finish

text \<open>
  The collaborators that the trainer consumes but does not define: the network, the
  optimizer update, the tensor library and float arithmetic. \<open>forward\<close> takes the module's
  mode flag, its parameters and the input; \<open>backward_step\<close> is the joint effect of
  \<^verbatim>\<open>zero_grad\<close>, \<^verbatim>\<open>loss.backward()\<close> and \<^verbatim>\<open>optimizer.step()\<close> on parameters and optimizer
  state; \<open>load_state_dict\<close> is the module's method, which raises when the given
  parameters do not fit the module; \<open>MoodRecog\<close> constructs a fresh network from its
  configuration. \<open>fadd\<close>, \<open>fdiv\<close> and \<open>fzero\<close> are \<^verbatim>\<open>+\<close>, \<^verbatim>\<open>/\<close> by an integer and \<^verbatim>\<open>0.0\<close> on
  the scalar values that are accumulated; nothing is assumed about them.
\<close>

record ('t, 'p, 'o, 'v, 'c) externals =
  forward :: "bool \<Rightarrow> 'p \<Rightarrow> 't \<Rightarrow> 't"
  backward_step :: "('t \<Rightarrow> 't \<Rightarrow> 'v) \<Rightarrow> 'p \<Rightarrow> 'o \<Rightarrow> 't batch \<Rightarrow> 'p \<times> 'o"
  sigmoid :: "'t \<Rightarrow> 't"
  load_state_dict :: "'p \<Rightarrow> 'p \<Rightarrow> error + 'p"
  MoodRecog :: "'c \<Rightarrow> 'p"
  fadd :: "'v \<Rightarrow> 'v \<Rightarrow> 'v"
  fdiv :: "'v \<Rightarrow> int \<Rightarrow> 'v"
  fzero :: 'v

text \<open>
  The fields of \<^verbatim>\<open>Trainer\<close>. \<open>model\<close> holds the parameters of the underlying module
  (\<^verbatim>\<open>model.state_dict()\<close>, or \<^verbatim>\<open>model.module.state_dict()\<close> under the distributed wrapper),
  \<open>training\<close> its mode flag; \<open>optimizer\<close> and \<open>scheduler\<close> hold the state that
  \<^verbatim>\<open>state_dict()\<close> returns and \<^verbatim>\<open>load_state_dict\<close> replaces. The accumulators are
  \<^verbatim>\<open>defaultdict(float)\<close>s, kept as association lists in insertion order. A pass over a
  data loader yields the list of its batches. \<open>trace\<close> and \<open>files\<close> are the world outside
  the object: what has been logged or emitted so far, and the file system.
\<close>

record ('t, 'p, 'o, 'sc, 'v, 'c) trainer =
  steps :: int
  epochs :: int
  train_loader :: "'t batch list"
  eval_loader :: "'t batch list"
  model :: 'p
  training :: bool
  criterion :: "('t, 'v) criterion_obj"
  loss_fn :: "'t \<Rightarrow> 't \<Rightarrow> 'v"
  optimizer :: 'o
  scheduler :: 'sc
  config :: trainer_config
  total_train_loss :: "(string \<times> 'v) list"
  total_eval_loss :: "(string \<times> 'v) list"
  total_eval_score :: "(string \<times> 'v) list"
  finish_train :: bool
  trace :: "'v event list"
  files :: "string \<rightharpoonup> ('p, 'o, 'sc, 'c) fs_entry"

section \<open>Helpers: accumulators, strings, files\<close>

text \<open>
  \<^verbatim>\<open>d[k] += v\<close> on a \<^verbatim>\<open>defaultdict(float)\<close> first reads \<^verbatim>\<open>d[k]\<close>, which inserts \<^verbatim>\<open>0.0\<close> under a
  missing key, then evaluates \<^verbatim>\<open>v\<close>, then stores the sum.
\<close>

definition acc_get :: "('t, 'p, 'o, 'v, 'c) externals \<Rightarrow> (string \<times> 'v) list \<Rightarrow> string \<Rightarrow> 'v" where
  "acc_get ext d k = (case map_of d k of None \<Rightarrow> fzero ext | Some x \<Rightarrow> x)"

definition acc_touch :: "('t, 'p, 'o, 'v, 'c) externals \<Rightarrow> (string \<times> 'v) list \<Rightarrow> string \<Rightarrow> (string \<times> 'v) list" where
  "acc_touch ext d k = AList.update k (acc_get ext d k) d"

definition acc_add :: "('t, 'p, 'o, 'v, 'c) externals \<Rightarrow> (string \<times> 'v) list \<Rightarrow> string \<Rightarrow> 'v \<Rightarrow> (string \<times> 'v) list" where
  "acc_add ext d k v = AList.update k (fadd ext (acc_get ext d k) v) d"

text \<open>\<^verbatim>\<open>for key in d.keys(): d[key] /= n\<close>.\<close>

definition acc_div :: "('t, 'p, 'o, 'v, 'c) externals \<Rightarrow> (string \<times> 'v) list \<Rightarrow> int \<Rightarrow> (string \<times> 'v) list" where
  "acc_div ext d n = map (\<lambda>(k, v). (k, fdiv ext v n)) d"

text \<open>Python's \<^verbatim>\<open>str\<close> of an integer, as used by the f-strings that build file names.\<close>

fun str_nat :: "nat \<Rightarrow> string" where
  "str_nat n = (if n < 10 then [''0123456789'' ! n] else str_nat (n div 10) @ [''0123456789'' ! (n mod 10)])"

declare str_nat.simps [simp del]

definition str_int :: "int \<Rightarrow> string" where
  "str_int i = (if i < 0 then ''-'' @ str_nat (nat (- i)) else str_nat (nat i))"

text \<open>\<^verbatim>\<open>os.path.basename\<close> and \<^verbatim>\<open>os.path.dirname\<close> (posix), and the slice \<^verbatim>\<open>s[11:-4]\<close>.\<close>

definition basename :: "string \<Rightarrow> string" where
  "basename p = rev (takeWhile (\<lambda>c. c \<noteq> CHR ''/'') (rev p))"

definition dirname :: "string \<Rightarrow> string" where
  "dirname p =
     (let head = take (length p - length (basename p)) p
      in if head \<noteq> [] \<and> (\<exists>c \<in> set head. c \<noteq> CHR ''/'')
         then rev (dropWhile (\<lambda>c. c = CHR ''/'') (rev head))
         else head)"

definition slice_11_m4 :: "string \<Rightarrow> string" where
  "slice_11_m4 s = take (length s - 4 - 11) (drop 11 s)"

text \<open>
  \<^verbatim>\<open>torch.load\<close>: opening a missing file raises \<open>FileNotFoundError\<close>; a file that is not a
  pickled bundle does not unpickle.
\<close>

definition torch_load :: "(string \<rightharpoonup> ('p, 'o, 'sc, 'c) fs_entry) \<Rightarrow> string \<Rightarrow> error + ('p, 'o, 'sc) state_bundle" where
  "torch_load fs path =
     (case fs path of
        None \<Rightarrow> Inl FileNotFoundError
      | Some (Checkpoint sd) \<Rightarrow> Inr sd
      | Some _ \<Rightarrow> Inl UnpicklingError)"

section \<open>The trainer\<close>

text \<open>
  \<^verbatim>\<open>Trainer.__init__\<close>: the loss function is looked up in the criterion object by the
  configured name; the accumulators start empty and \<^verbatim>\<open>finish_train\<close> is false.
\<close>

definition Trainer_init ::
  "int \<Rightarrow> int \<Rightarrow> 't batch list \<Rightarrow> 't batch list \<Rightarrow> 'p \<Rightarrow> ('t, 'v) criterion_obj \<Rightarrow> 'o \<Rightarrow> 'sc \<Rightarrow>
   trainer_config \<Rightarrow> (string \<rightharpoonup> ('p, 'o, 'sc, 'c) fs_entry) \<Rightarrow> error + ('t, 'p, 'o, 'sc, 'v, 'c) trainer" where
  "Trainer_init steps0 epochs0 train_batches eval_batches model0 criterion0 optimizer0 scheduler0 config0 fs =
     (case getitem criterion0 (cfg_loss_fn config0) of
        Inl e \<Rightarrow> Inl e
      | Inr f \<Rightarrow> Inr \<lparr> steps = steps0, epochs = epochs0,
                      train_loader = train_batches, eval_loader = eval_batches,
                      model = model0, training = True,
                      criterion = criterion0, loss_fn = f,
                      optimizer = optimizer0, scheduler = scheduler0, config = config0,
                      total_train_loss = [], total_eval_loss = [], total_eval_score = [],
                      finish_train = False, trace = [], files = fs \<rparr>)"

definition check_train_finish ::
  "('t, 'p, 'o, 'sc, 'v, 'c) trainer \<Rightarrow> ('t, 'p, 'o, 'sc, 'v, 'c) trainer" where
  "check_train_finish st =
     (if steps st \<ge> train_max_steps (config st) then st\<lparr>finish_train := True\<rparr> else st)"

definition write_to_tensorboard ::
  "('t, 'p, 'o, 'sc, 'v, 'c) trainer \<Rightarrow> (string \<times> 'v) list \<Rightarrow> ('t, 'p, 'o, 'sc, 'v, 'c) trainer" where
  "write_to_tensorboard st item =
     st\<lparr>trace := trace st @ map (\<lambda>(key, value). Add_scalar key value (steps st)) item\<rparr>"

definition train_step ::
  "('t, 'p, 'o, 'v, 'c) externals \<Rightarrow> ('t, 'p, 'o, 'sc, 'v, 'c) trainer \<Rightarrow> 't batch \<Rightarrow>
   ('t, 'p, 'o, 'sc, 'v, 'c) trainer" where
  "train_step ext st b =
     (let y' = forward ext (training st) (model st) (mel b);
          loss = loss_fn st y' (label b);
          (p, opt) = backward_step ext (loss_fn st) (model st) (optimizer st) b
      in check_train_finish
           (st\<lparr> model := p, optimizer := opt,
                total_train_loss := acc_add ext (total_train_loss st) ''train/onset_loss'' loss,
                steps := steps st + 1,
                trace := trace st @ [Tqdm_update (steps st + 1)] \<rparr>))"

definition save_checkpoint ::
  "('t, 'p, 'o, 'sc, 'v, 'c) trainer \<Rightarrow> string \<Rightarrow> string \<Rightarrow> ('t, 'p, 'o, 'sc, 'v, 'c) trainer" where
  "save_checkpoint st dir f_name =
     (let state_dict = \<lparr> b_optimizer = Some (optimizer st), b_scheduler = Some (scheduler st),
                         b_steps = Some (steps st), b_epochs = Some (epochs st),
                         b_model = Some (model st) \<rparr>;
          path = dir @ ''/'' @ f_name
      in st\<lparr> files := (files st)(path \<mapsto> Checkpoint state_dict),
             trace := trace st @ [Torch_save path (steps st)] \<rparr>)"

definition load_checkpoint ::
  "('t, 'p, 'o, 'v, 'c) externals \<Rightarrow> ('t, 'p, 'o, 'sc, 'v, 'c) trainer \<Rightarrow> string \<Rightarrow> bool \<Rightarrow>
   ('t, 'p, 'o, 'sc, 'v, 'c) trainer outcome" where
  "load_checkpoint ext st path load_only_params =
     (case torch_load (files st) path of
        Inl e \<Rightarrow> Raised e st
      | Inr state_dict \<Rightarrow>
         (case b_model state_dict of
            None \<Rightarrow> Raised (KeyError ''model'') st
          | Some p \<Rightarrow>
             (case load_state_dict ext (model st) p of
                Inl e \<Rightarrow> Raised e st
              | Inr p' \<Rightarrow>
                 (let st1 = st\<lparr>model := p'\<rparr> in
                  if load_only_params then Done st1
                  else
                    (case b_steps state_dict of
                       None \<Rightarrow> Raised (KeyError ''steps'') st1
                     | Some s \<Rightarrow>
                        (let st2 = st1\<lparr>steps := s\<rparr> in
                         case b_epochs state_dict of
                           None \<Rightarrow> Raised (KeyError ''epochs'') st2
                         | Some e \<Rightarrow>
                            (let st3 = st2\<lparr>epochs := e\<rparr> in
                             case b_optimizer state_dict of
                               None \<Rightarrow> Raised (KeyError ''optimizer'') st3
                             | Some opt \<Rightarrow>
                                (let st4 = st3\<lparr>optimizer := opt\<rparr> in
                                 case b_scheduler state_dict of
                                   None \<Rightarrow> Raised (KeyError ''scheduler'') st4
                                 | Some sch \<Rightarrow> Done (st4\<lparr>scheduler := sch\<rparr>)))))))))"

text \<open>
  The keys that \<^verbatim>\<open>load_checkpoint\<close> subscripts, in the order in which it does so, and the
  test whether a bundle has a key.
\<close>

definition keys_read :: "bool \<Rightarrow> string list" where
  "keys_read load_only_params =
     (if load_only_params then [''model'']
      else [''model'', ''steps'', ''epochs'', ''optimizer'', ''scheduler''])"

definition has_key :: "('p, 'o, 'sc) state_bundle \<Rightarrow> string \<Rightarrow> bool" where
  "has_key sd k =
     (if k = ''model'' then b_model sd \<noteq> None
      else if k = ''steps'' then b_steps sd \<noteq> None
      else if k = ''epochs'' then b_epochs sd \<noteq> None
      else if k = ''optimizer'' then b_optimizer sd \<noteq> None
      else if k = ''scheduler'' then b_scheduler sd \<noteq> None
      else False)"

subsection \<open>Evaluation pass\<close>

definition eval_step ::
  "('t, 'p, 'o, 'v, 'c) externals \<Rightarrow> ('t, 'p, 'o, 'sc, 'v, 'c) trainer \<Rightarrow> 't batch \<Rightarrow>
   ('t, 'p, 'o, 'sc, 'v, 'c) trainer outcome" where
  "eval_step ext st b =
     (let y = label b;
          y' = forward ext (training st) (model st) (mel b);
          loss = loss_fn st y' y;
          st1 = st\<lparr>total_eval_loss := acc_add ext (total_eval_loss st) ''eval/onset_loss'' loss\<rparr>;
          y'' = (if cfg_loss_fn (config st1) = ''BCEWithLogits'' then sigmoid ext y' else y');
          st2 = st1\<lparr>total_eval_loss := acc_touch ext (total_eval_loss st1) ''eval/score''\<rparr>
      in case call (criterion st2) y y'' of
           Inl e \<Rightarrow> Raised e st2
         | Inr score \<Rightarrow>
             Done (st2\<lparr>total_eval_loss := acc_add ext (total_eval_loss st2) ''eval/score'' score\<rparr>))"

fun eval_batches ::
  "('t, 'p, 'o, 'v, 'c) externals \<Rightarrow> ('t, 'p, 'o, 'sc, 'v, 'c) trainer \<Rightarrow> 't batch list \<Rightarrow>
   ('t, 'p, 'o, 'sc, 'v, 'c) trainer outcome" where
  "eval_batches ext st [] = Done st"
| "eval_batches ext st (b # bs) = and_then (eval_step ext st b) (\<lambda>st'. eval_batches ext st' bs)"

text \<open>
  \<^verbatim>\<open>batch_idx\<close> is set to 1 before the loop and then bound by \<^verbatim>\<open>enumerate(..., 1)\<close>: after
  the loop it is the number of batches, or still 1 when there was none.
\<close>

definition final_batch_idx :: "'b list \<Rightarrow> int" where
  "final_batch_idx bs = (if bs = [] then 1 else int (length bs))"

definition eval_epoch ::
  "('t, 'p, 'o, 'v, 'c) externals \<Rightarrow> ('t, 'p, 'o, 'sc, 'v, 'c) trainer \<Rightarrow>
   ('t, 'p, 'o, 'sc, 'v, 'c) trainer outcome" where
  "eval_epoch ext st =
     (let st0 = st\<lparr>trace := trace st @ [Log_eval_start (steps st)], training := False\<rparr>;
          batch_idx = final_batch_idx (eval_loader st0)
      in and_then (eval_batches ext st0 (eval_loader st0))
           (\<lambda>st1.
              let st2 = st1\<lparr>trace := trace st1 @ [Log_eval_finished (steps st1)]\<rparr>;
                  loss = acc_div ext (total_eval_loss st2) batch_idx;
                  st3 = st2\<lparr>total_eval_loss := loss,
                            trace := trace st2 @ map (\<lambda>(key, v). Log_metric key v (steps st2)) loss\<rparr>;
                  score = acc_div ext (total_eval_score st3) batch_idx;
                  st4 = st3\<lparr>total_eval_score := score,
                            trace := trace st3 @ map (\<lambda>(key, v). Log_score key v) score\<rparr>;
                  st5 = write_to_tensorboard st4 (total_eval_loss st4);
                  st6 = write_to_tensorboard st5 (total_eval_score st5)
              in Done (st6\<lparr>total_eval_loss := [], total_eval_score := [], training := True\<rparr>)))"

subsection \<open>Interval checks\<close>

text \<open>\<^verbatim>\<open>steps % n\<close> raises \<open>ZeroDivisionError\<close> when \<^verbatim>\<open>n\<close> is 0.\<close>

definition check_log_interval ::
  "('t, 'p, 'o, 'v, 'c) externals \<Rightarrow> ('t, 'p, 'o, 'sc, 'v, 'c) trainer \<Rightarrow>
   ('t, 'p, 'o, 'sc, 'v, 'c) trainer outcome" where
  "check_log_interval ext st =
     (let n = log_interval_steps (config st) in
      if n = 0 then Raised ZeroDivisionError st
      else if steps st mod n = 0 then
        (let loss = acc_div ext (total_train_loss st) n;
             st1 = st\<lparr>total_train_loss := loss,
                      trace := trace st @ map (\<lambda>(key, v). Log_metric key v (steps st)) loss\<rparr>;
             st2 = write_to_tensorboard st1 (total_train_loss st1)
         in Done (st2\<lparr>total_train_loss := []\<rparr>))
      else Done st)"

definition check_save_interval ::
  "('t, 'p, 'o, 'sc, 'v, 'c) trainer \<Rightarrow> ('t, 'p, 'o, 'sc, 'v, 'c) trainer outcome" where
  "check_save_interval st =
     (let n = save_interval_steps (config st) in
      if n = 0 then Raised ZeroDivisionError st
      else if steps st mod n = 0 then
        (let st1 = save_checkpoint st (checkpoint_path (config st))
                     (''checkpoint-'' @ str_int (steps st) @ ''steps.pkl'')
         in Done (st1\<lparr>trace := trace st1 @ [Log_saved (steps st1)]\<rparr>))
      else Done st)"

definition check_eval_interval ::
  "('t, 'p, 'o, 'v, 'c) externals \<Rightarrow> ('t, 'p, 'o, 'sc, 'v, 'c) trainer \<Rightarrow>
   ('t, 'p, 'o, 'sc, 'v, 'c) trainer outcome" where
  "check_eval_interval ext st =
     (let n = eval_interval_steps (config st) in
      if n = 0 then Raised ZeroDivisionError st
      else if steps st mod n = 0 then eval_epoch ext st
      else Done st)"

subsection \<open>Training loop\<close>

text \<open>The body of the \<^verbatim>\<open>for\<close> loop of \<^verbatim>\<open>_train_epoch\<close>, up to the test of \<^verbatim>\<open>finish_train\<close>.\<close>

definition train_iteration ::
  "('t, 'p, 'o, 'v, 'c) externals \<Rightarrow> ('t, 'p, 'o, 'sc, 'v, 'c) trainer \<Rightarrow> 't batch \<Rightarrow>
   ('t, 'p, 'o, 'sc, 'v, 'c) trainer outcome" where
  "train_iteration ext st b =
     and_then (and_then (check_log_interval ext (train_step ext st b)) check_save_interval)
       (check_eval_interval ext)"

text \<open>What follows the loop when it runs to its end: the epoch boundary.\<close>

definition epoch_end ::
  "('t, 'p, 'o, 'sc, 'v, 'c) trainer \<Rightarrow> ('t, 'p, 'o, 'sc, 'v, 'c) trainer" where
  "epoch_end st =
     (let st1 = st\<lparr>epochs := epochs st + 1\<rparr>;
          st2 = st1\<lparr>trace := trace st1 @ [Log_epoch (epochs st1) (steps st1)]\<rparr>
      in if distributed (config st2) then st2\<lparr>trace := trace st2 @ [Set_epoch (epochs st2)]\<rparr>
         else st2)"

fun train_batches ::
  "('t, 'p, 'o, 'v, 'c) externals \<Rightarrow> ('t, 'p, 'o, 'sc, 'v, 'c) trainer \<Rightarrow> 't batch list \<Rightarrow>
   ('t, 'p, 'o, 'sc, 'v, 'c) trainer outcome" where
  "train_batches ext st [] = Done (epoch_end st)"
| "train_batches ext st (b # bs) =
     (case train_iteration ext st b of
        Raised e st' \<Rightarrow> Raised e st'
      | Done st' \<Rightarrow> if finish_train st' then Done st' else train_batches ext st' bs)"

definition train_epoch ::
  "('t, 'p, 'o, 'v, 'c) externals \<Rightarrow> ('t, 'p, 'o, 'sc, 'v, 'c) trainer \<Rightarrow>
   ('t, 'p, 'o, 'sc, 'v, 'c) trainer outcome" where
  "train_epoch ext st = train_batches ext st (train_loader st)"

text \<open>
  \<^verbatim>\<open>while True: self._train_epoch(); if self.finish_train: break\<close>. The loop need not end
  (it does not when the training loader is empty), so it is a partial function: \<open>None\<close>
  stands for a run that never returns.
\<close>

partial_function (option) run_loop ::
  "('t, 'p, 'o, 'v, 'c) externals \<Rightarrow> ('t, 'p, 'o, 'sc, 'v, 'c) trainer \<Rightarrow>
   ('t, 'p, 'o, 'sc, 'v, 'c) trainer outcome option" where
  "run_loop ext st =
     (case train_epoch ext st of
        Raised e st' \<Rightarrow> Some (Raised e st')
      | Done st' \<Rightarrow> if finish_train st' then Some (Done st') else run_loop ext st')"

definition run ::
  "('t, 'p, 'o, 'v, 'c) externals \<Rightarrow> ('t, 'p, 'o, 'sc, 'v, 'c) trainer \<Rightarrow>
   ('t, 'p, 'o, 'sc, 'v, 'c) trainer outcome option" where
  "run ext st =
     (case run_loop ext st of
        None \<Rightarrow> None
      | Some (Raised e st') \<Rightarrow> Some (Raised e st')
      | Some (Done st') \<Rightarrow> Some (Done (st'\<lparr>trace := trace st' @ [Log_finish]\<rparr>)))"

section \<open>Model export\<close>

text \<open>
  \<^verbatim>\<open>save_model(config_path, checkpoint_path)\<close> on a file system: the result is the exception
  raised, if any, and the file system afterwards.
\<close>

definition export_path :: "string \<Rightarrow> string" where
  "export_path checkpoint = dirname checkpoint @ ''/model-'' @ slice_11_m4 (basename checkpoint) @ ''.pt''"

definition save_model ::
  "('t, 'p, 'o, 'v, 'c) externals \<Rightarrow> (string \<rightharpoonup> ('p, 'o, 'sc, 'c) fs_entry) \<Rightarrow> string \<Rightarrow> string \<Rightarrow>
   error option \<times> (string \<rightharpoonup> ('p, 'o, 'sc, 'c) fs_entry)" where
  "save_model ext fs config_path checkpoint =
     (case fs config_path of
        None \<Rightarrow> (Some FileNotFoundError, fs)
      | Some (Checkpoint _) \<Rightarrow> (Some YAMLError, fs)
      | Some (Package _) \<Rightarrow> (Some YAMLError, fs)
      | Some (Config_yaml cfg) \<Rightarrow>
         (let cfg' = (if trainer_checkpoint_path cfg = ''checkpoints''
                      then cfg\<lparr>trainer_checkpoint_path :=
                                 trainer_checkpoint_path cfg @ ''/checkpoint_'' @ version cfg\<rparr>
                      else cfg);
              fresh = MoodRecog ext (model_config cfg')
          in case torch_load fs checkpoint of
               Inl e \<Rightarrow> (Some e, fs)
             | Inr state_dict \<Rightarrow>
                (case b_model state_dict of
                   None \<Rightarrow> (Some (KeyError ''model''), fs)
                 | Some p \<Rightarrow>
                    (case load_state_dict ext fresh p of
                       Inl e \<Rightarrow> (Some e, fs)
                     | Inr m \<Rightarrow> (None, fs(export_path checkpoint \<mapsto> Package m))))))"

section \<open>Observations of a run\<close>

text \<open>
  The values that the step counter took, in order: \<^verbatim>\<open>_train_step\<close> updates the progress
  bar right after it has incremented the counter, once per training step.
\<close>

fun step_of :: "'v event \<Rightarrow> int list" where
  "step_of (Tqdm_update s) = [s]"
| "step_of _ = []"

definition step_values :: "'v event list \<Rightarrow> int list" where
  "step_values tr = concat (map step_of tr)"

text \<open>Two states that agree on everything the loop control reads, and on the steps taken.\<close>

definition same_progress ::
  "('t, 'p, 'o, 'sc, 'v, 'c) trainer \<Rightarrow> ('t, 'p, 'o, 'sc, 'v, 'c) trainer \<Rightarrow> bool" where
  "same_progress st st' \<longleftrightarrow>
     steps st' = steps st \<and> epochs st' = epochs st \<and> finish_train st' = finish_train st \<and>
     config st' = config st \<and> train_loader st' = train_loader st \<and> eval_loader st' = eval_loader st \<and>
     step_values (trace st') = step_values (trace st)"

text \<open>
  The actions of the loop as the trace shows them, each with the step count at which it
  happened: a training step is its progress-bar update, the log action is the emission
  of \<^verbatim>\<open>train/onset_loss\<close> to the metrics sink, the save action is the call of
  \<^verbatim>\<open>torch.save\<close>, the eval action is the start of an evaluation pass.
\<close>

datatype action = Train | Log | Save | Eval

fun action_of :: "'v event \<Rightarrow> (action \<times> int) list" where
  "action_of (Tqdm_update s) = [(Train, s)]"
| "action_of (Add_scalar k v s) = (if k = ''train/onset_loss'' then [(Log, s)] else [])"
| "action_of (Torch_save p s) = [(Save, s)]"
| "action_of (Log_eval_start s) = [(Eval, s)]"
| "action_of _ = []"

definition actions :: "'v event list \<Rightarrow> (action \<times> int) list" where
  "actions tr = concat (map action_of tr)"

text \<open>
  The schedule as the specification words it: at step count \<open>s\<close> the training step, then
  the log action iff \<open>s mod log_interval_steps = 0\<close>, then the save action iff
  \<open>s mod save_interval_steps = 0\<close>, then the eval action iff
  \<open>s mod eval_interval_steps = 0\<close>; and the schedule of the steps \<open>s0 + 1, \<dots>, s1\<close>.
\<close>

definition step_actions :: "trainer_config \<Rightarrow> int \<Rightarrow> (action \<times> int) list" where
  "step_actions cfg s =
     [(Train, s)]
     @ (if s mod log_interval_steps cfg = 0 then [(Log, s)] else [])
     @ (if s mod save_interval_steps cfg = 0 then [(Save, s)] else [])
     @ (if s mod eval_interval_steps cfg = 0 then [(Eval, s)] else [])"

definition run_actions :: "trainer_config \<Rightarrow> int \<Rightarrow> int \<Rightarrow> (action \<times> int) list" where
  "run_actions cfg s0 s1 = concat (map (step_actions cfg) [s0 + 1..s1])"

text \<open>
  The accumulators as the constructor and every check that returned leave them: the
  train-loss accumulator is empty or holds the one key that \<^verbatim>\<open>_train_step\<close> writes, the
  two evaluation accumulators are empty.
\<close>

definition accumulators_clean :: "('t, 'p, 'o, 'sc, 'v, 'c) trainer \<Rightarrow> bool" where
  "accumulators_clean st \<longleftrightarrow>
     (total_train_loss st = [] \<or> map fst (total_train_loss st) = [''train/onset_loss'']) \<and>
     total_eval_loss st = [] \<and> total_eval_score st = []"

text \<open>
  A piece of the loop started in \<open>st\<close> is on the schedule \<open>expected\<close> when the actions it
  added are a prefix of \<open>expected\<close> (an exception cuts the piece short), all of it when it
  returned, and it then leaves the accumulators clean.
\<close>

definition on_schedule ::
  "('t, 'p, 'o, 'sc, 'v, 'c) trainer \<Rightarrow> (action \<times> int) list \<Rightarrow>
   ('t, 'p, 'o, 'sc, 'v, 'c) trainer outcome \<Rightarrow> bool" where
  "on_schedule st expected r \<longleftrightarrow>
     (\<exists>X. actions (trace (state_of r)) = actions (trace st) @ X \<and> prefix X expected \<and>
          (\<forall>s. r = Done s \<longrightarrow> X = expected \<and> accumulators_clean s))"



text \<open>None of the three modulo tests divides by zero.\<close>

definition intervals_nonzero :: "trainer_config \<Rightarrow> bool" where
  "intervals_nonzero cfg \<longleftrightarrow>
     log_interval_steps cfg \<noteq> 0 \<and> save_interval_steps cfg \<noteq> 0 \<and> eval_interval_steps cfg \<noteq> 0"

section \<open>A concrete instance\<close>

text \<open>
  A small instance of the collaborators on which the functions above can be evaluated:
  tensors and scalars are rationals, a parameter set is a list of tensors given by shape
  and content, the optimizer and scheduler states are counters. \<open>strict_load\<close> is
  \<^verbatim>\<open>load_state_dict\<close> as the tensor library documents it: it raises \<open>RuntimeError\<close> when the
  shapes of the given parameters differ from those of the module.
\<close>

definition sq_err :: "rat \<Rightarrow> rat \<Rightarrow> rat" where
  "sq_err y' y = (y' - y) * (y' - y)"

definition abs_err :: "rat \<Rightarrow> rat \<Rightarrow> rat" where
  "abs_err y' y = \<bar>y' - y\<bar>"

definition strict_load ::
  "(nat list \<times> int) list \<Rightarrow> (nat list \<times> int) list \<Rightarrow> error + (nat list \<times> int) list" where
  "strict_load current loaded =
     (if map fst current = map fst loaded then Inr loaded else Inl RuntimeError)"

definition example_externals :: "(rat, (nat list \<times> int) list, nat, rat, nat list list) externals" where
  "example_externals =
     \<lparr> forward = (\<lambda>mode p x. x * of_int (sum_list (map snd p))),
       backward_step = (\<lambda>f p opt b. (map (\<lambda>(shape, w). (shape, w + 1)) p, opt + 1)),
       sigmoid = (\<lambda>x. (1 + x / (1 + \<bar>x\<bar>)) / 2),
       load_state_dict = strict_load,
       MoodRecog = map (\<lambda>shape. (shape, 0)),
       fadd = (+),
       fdiv = (\<lambda>v n. v / of_int n),
       fzero = 0 \<rparr>"

text \<open>An object that can be subscripted like the registry of \<^verbatim>\<open>main\<close> and can also be called.\<close>

definition callable_criterion :: "(rat, rat) criterion_obj" where
  "callable_criterion =
     \<lparr> getitem = getitem (main_criterion sq_err abs_err), call = (\<lambda>y y'. Inr (abs_err y y')) \<rparr>"

definition example_config :: "int \<Rightarrow> int \<Rightarrow> int \<Rightarrow> int \<Rightarrow> trainer_config" where
  "example_config li si ei n =
     \<lparr> checkpoint_path = ''ckpt'', cfg_loss_fn = ''MSE'',
       log_interval_steps = li, save_interval_steps = si, eval_interval_steps = ei,
       train_max_steps = n, distributed = False \<rparr>"

text \<open>The trainer that \<open>Trainer_init\<close> builds from step 0 with the loss \<^verbatim>\<open>'MSE'\<close>.\<close>

definition example_trainer ::
  "(rat, rat) criterion_obj \<Rightarrow> trainer_config \<Rightarrow> rat batch list \<Rightarrow> rat batch list \<Rightarrow>
   (rat, (nat list \<times> int) list, nat, nat, rat, nat list list) trainer" where
  "example_trainer crit cfg train_bs eval_bs =
     \<lparr> steps = 0, epochs = 0, train_loader = train_bs, eval_loader = eval_bs,
       model = [([2, 3], 1)], training = True, criterion = crit, loss_fn = sq_err,
       optimizer = 0, scheduler = 0, config = cfg,
       total_train_loss = [], total_eval_loss = [], total_eval_score = [],
       finish_train = False, trace = [], files = Map.empty \<rparr>"

text \<open>
  A file system with a configuration whose model has one tensor of shape 2 x 3, a
  checkpoint of another architecture, a checkpoint that fits, and a bundle that holds
  parameters only.
\<close>

definition example_fs :: "string \<rightharpoonup> ((nat list \<times> int) list, nat, nat, nat list list) fs_entry" where
  "example_fs =
     [''config.yaml'' \<mapsto> Config_yaml \<lparr> trainer_checkpoint_path = ''checkpoints'', version = ''0_1'',
                                        model_config = [[2, 3]] \<rparr>,
      ''ckpt/checkpoint-100steps.pkl'' \<mapsto>
         Checkpoint \<lparr> b_optimizer = Some 100, b_scheduler = Some 0, b_steps = Some 100,
                      b_epochs = Some 3, b_model = Some [([4, 3], 5)] \<rparr>,
      ''ckpt/checkpoint-200steps.pkl'' \<mapsto>
         Checkpoint \<lparr> b_optimizer = Some 200, b_scheduler = Some 0, b_steps = Some 200,
                      b_epochs = Some 6, b_model = Some [([2, 3], 9)] \<rparr>,
      ''ckpt/params.pkl'' \<mapsto>
         Checkpoint \<lparr> b_optimizer = None, b_scheduler = None, b_steps = None,
                      b_epochs = None, b_model = Some [([2, 3], 9)] \<rparr>]"

text \<open>
  Three trainers to run: a fresh one that logs every step, saves every second and
  evaluates every third step, for six steps over a loader of two batches; the same
  trainer resumed with the counter already at the maximum; and a fresh one with the
  save interval 100 and 250 steps to go, whose evaluation loader is empty.
\<close>

definition example_run_start ::
  "(rat, (nat list \<times> int) list, nat, nat, rat, nat list list) trainer" where
  "example_run_start =
     example_trainer callable_criterion (example_config 1 2 3 6)
       [\<lparr>mel = 2, label = 1\<rparr>, \<lparr>mel = 4, label = 1\<rparr>] [\<lparr>mel = 1, label = 1\<rparr>]"

definition example_resumed_start ::
  "(rat, (nat list \<times> int) list, nat, nat, rat, nat list list) trainer" where
  "example_resumed_start = example_run_start\<lparr>steps := 6, epochs := 3\<rparr>"


section \<open>The evaluation pass\<close>

lemma example_trainer_init:
  "Trainer_init 0 0 train_bs eval_bs [([2, 3], 1)] callable_criterion 0 0 (example_config a b c d) Map.empty
   = Inr (example_trainer callable_criterion (example_config a b c d) train_bs eval_bs)"
  by (simp add: Trainer_init_def callable_criterion_def main_criterion_def dict_obj_def
        example_config_def example_trainer_def)

text \<open>An evaluation step touches nothing but the eval-loss accumulator, whether it raises or not.\<close>

lemma eval_step_frame:
  "state_of (eval_step ext st b) = st\<lparr>total_eval_loss := total_eval_loss (state_of (eval_step ext st b))\<rparr>"
  by (simp add: eval_step_def Let_def split: sum.splits)

lemma eval_batches_frame:
  "state_of (eval_batches ext st bs) = st\<lparr>total_eval_loss := total_eval_loss (state_of (eval_batches ext st bs))\<rparr>"
proof (induction bs arbitrary: st)
  case Nil
  show ?case by simp
next
  case (Cons b bs)
  show ?case
  proof (cases "eval_step ext st b")
    case (Done s)
    have s: "s = st\<lparr>total_eval_loss := total_eval_loss s\<rparr>"
      using eval_step_frame [of ext st b] Done by simp
    have "state_of (eval_batches ext s bs) = s\<lparr>total_eval_loss := total_eval_loss (state_of (eval_batches ext s bs))\<rparr>"
      by (rule Cons.IH)
    also have "\<dots> = st\<lparr>total_eval_loss := total_eval_loss (state_of (eval_batches ext s bs))\<rparr>"
      by (subst s) simp
    finally show ?thesis using Done by simp
  next
    case (Raised e s)
    then show ?thesis using eval_step_frame [of ext st b] by simp
  qed
qed

lemma eval_batches_Done_frame:
  assumes "eval_batches ext st bs = Done st1"
  shows "st1 = st\<lparr>total_eval_loss := total_eval_loss st1\<rparr>"
  using eval_batches_frame [of ext st bs] assms by simp

text \<open>What the pass does once the loop over the batches has returned.\<close>

lemma eval_epoch_Done:
  assumes "eval_batches ext (st\<lparr>trace := trace st @ [Log_eval_start (steps st)], training := False\<rparr>) (eval_loader st) = Done st1"
  shows "eval_epoch ext st =
    Done (st\<lparr>trace := trace st @ [Log_eval_start (steps st), Log_eval_finished (steps st)]
                 @ map (\<lambda>(k, v). Log_metric k (fdiv ext v (final_batch_idx (eval_loader st))) (steps st)) (total_eval_loss st1)
                 @ map (\<lambda>(k, v). Log_score k (fdiv ext v (final_batch_idx (eval_loader st)))) (total_eval_score st)
                 @ map (\<lambda>(k, v). Add_scalar k (fdiv ext v (final_batch_idx (eval_loader st))) (steps st)) (total_eval_loss st1)
                 @ map (\<lambda>(k, v). Add_scalar k (fdiv ext v (final_batch_idx (eval_loader st))) (steps st)) (total_eval_score st),
               total_eval_loss := [], total_eval_score := [], training := True\<rparr>)"
proof -
  define L where "L = total_eval_loss st1"
  have f: "st1 = st\<lparr>trace := trace st @ [Log_eval_start (steps st)], training := False, total_eval_loss := L\<rparr>"
    using eval_batches_Done_frame [OF assms] by (simp add: L_def)
  have a: "eval_batches ext (st\<lparr>trace := trace st @ [Log_eval_start (steps st)], training := False\<rparr>) (eval_loader st)
     = Done (st\<lparr>trace := trace st @ [Log_eval_start (steps st)], training := False, total_eval_loss := L\<rparr>)"
    using assms f by simp
  show ?thesis
    unfolding eval_epoch_def Let_def L_def [symmetric]
    by (simp add: a write_to_tensorboard_def acc_div_def split_def)
qed

text \<open>
  C10. When the evaluation loader yields no batch, the pass returns normally: nothing
  raises, every accumulated value is divided by 1 (the value that \<^verbatim>\<open>batch_idx\<close> keeps),
  logged and emitted, both accumulators are reset to empty, and the model is back in
  training mode. No other field of the trainer changes.
\<close>

theorem eval_epoch_empty_loader:
  assumes "eval_loader st = []"
  shows "eval_epoch ext st =
    Done (st\<lparr>trace := trace st @ [Log_eval_start (steps st), Log_eval_finished (steps st)]
                 @ map (\<lambda>(k, v). Log_metric k (fdiv ext v 1) (steps st)) (total_eval_loss st)
                 @ map (\<lambda>(k, v). Log_score k (fdiv ext v 1)) (total_eval_score st)
                 @ map (\<lambda>(k, v). Add_scalar k (fdiv ext v 1) (steps st)) (total_eval_loss st)
                 @ map (\<lambda>(k, v). Add_scalar k (fdiv ext v 1) (steps st)) (total_eval_score st),
               total_eval_loss := [], total_eval_score := [], training := True\<rparr>)"
proof -
  let ?st0 = "st\<lparr>trace := trace st @ [Log_eval_start (steps st)], training := False\<rparr>"
  have "eval_batches ext ?st0 (eval_loader st) = Done ?st0"
    by (simp add: assms)
  from eval_epoch_Done [OF this] show ?thesis
    by (simp add: assms final_batch_idx_def)
qed

theorem eval_epoch_empty_loader_witness:
  "eval_loader (example_trainer (main_criterion sq_err abs_err) (example_config 1 1 1 3) [] []
                  \<lparr>total_eval_loss := [(''eval/onset_loss'', 3)]\<rparr>) = [] \<and>
   eval_epoch example_externals
     (example_trainer (main_criterion sq_err abs_err) (example_config 1 1 1 3) [] []
        \<lparr>total_eval_loss := [(''eval/onset_loss'', 3)]\<rparr>)
   = Done (example_trainer (main_criterion sq_err abs_err) (example_config 1 1 1 3) [] []
        \<lparr>trace := [Log_eval_start 0, Log_eval_finished 0, Log_metric ''eval/onset_loss'' 3 0,
                   Add_scalar ''eval/onset_loss'' 3 0]\<rparr>)"
  using eval_epoch_empty_loader [of "example_trainer (main_criterion sq_err abs_err) (example_config 1 1 1 3) [] []
        \<lparr>total_eval_loss := [(''eval/onset_loss'', 3)]\<rparr>" example_externals]
  by (simp add: example_trainer_def example_externals_def)

text \<open>
  C5. An evaluation pass that returns has run the loop over the \<open>n\<close> batches of the
  evaluation loader, leaving the eval-loss accumulator at some \<open>L\<close>; then every value of
  the eval-loss accumulator and every value of the eval-score accumulator is divided by
  \<open>n\<close>, the number of batches, and logged (loss first, then score), then emitted to the
  metrics sink (loss first, then score), and both accumulators are reset to empty. The
  pass is either over at least one batch or entered with empty accumulators, as the
  trainer leaves them.
\<close>

theorem eval_epoch_averages:
  assumes "eval_epoch ext st = Done st'"
      and "eval_loader st \<noteq> [] \<or> (total_eval_loss st = [] \<and> total_eval_score st = [])"
  shows "\<exists>L. eval_batches ext (st\<lparr>trace := trace st @ [Log_eval_start (steps st)], training := False\<rparr>)
                (eval_loader st)
              = Done (st\<lparr>trace := trace st @ [Log_eval_start (steps st)], training := False,
                         total_eval_loss := L\<rparr>) \<and>
          st' = st\<lparr>trace := trace st @ [Log_eval_start (steps st), Log_eval_finished (steps st)]
                 @ map (\<lambda>(k, v). Log_metric k (fdiv ext v (int (length (eval_loader st)))) (steps st)) L
                 @ map (\<lambda>(k, v). Log_score k (fdiv ext v (int (length (eval_loader st))))) (total_eval_score st)
                 @ map (\<lambda>(k, v). Add_scalar k (fdiv ext v (int (length (eval_loader st)))) (steps st)) L
                 @ map (\<lambda>(k, v). Add_scalar k (fdiv ext v (int (length (eval_loader st)))) (steps st)) (total_eval_score st),
               total_eval_loss := [], total_eval_score := [], training := True\<rparr>"
proof -
  let ?st0 = "st\<lparr>trace := trace st @ [Log_eval_start (steps st)], training := False\<rparr>"
  obtain st1 where b: "eval_batches ext ?st0 (eval_loader st) = Done st1"
    using assms(1) by (cases "eval_batches ext ?st0 (eval_loader st)") (simp_all add: eval_epoch_def Let_def)
  define L where "L = total_eval_loss st1"
  have f: "st1 = ?st0\<lparr>total_eval_loss := L\<rparr>"
    using eval_batches_Done_frame [OF b] by (simp add: L_def)
  have d: "L = [] \<and> total_eval_score st = [] \<or> final_batch_idx (eval_loader st) = int (length (eval_loader st))"
  proof (cases "eval_loader st = []")
    case True
    then have "st1 = ?st0" using b by simp
    then have "L = total_eval_loss st" by (simp add: L_def)
    then show ?thesis using True assms(2) by simp
  next
    case False
    then show ?thesis by (simp add: final_batch_idx_def)
  qed
  have "st' = st\<lparr>trace := trace st @ [Log_eval_start (steps st), Log_eval_finished (steps st)]
                 @ map (\<lambda>(k, v). Log_metric k (fdiv ext v (final_batch_idx (eval_loader st))) (steps st)) L
                 @ map (\<lambda>(k, v). Log_score k (fdiv ext v (final_batch_idx (eval_loader st)))) (total_eval_score st)
                 @ map (\<lambda>(k, v). Add_scalar k (fdiv ext v (final_batch_idx (eval_loader st))) (steps st)) L
                 @ map (\<lambda>(k, v). Add_scalar k (fdiv ext v (final_batch_idx (eval_loader st))) (steps st)) (total_eval_score st),
               total_eval_loss := [], total_eval_score := [], training := True\<rparr>"
    using eval_epoch_Done [OF b] assms(1) by (simp add: L_def)
  with d have "st' = st\<lparr>trace := trace st @ [Log_eval_start (steps st), Log_eval_finished (steps st)]
                 @ map (\<lambda>(k, v). Log_metric k (fdiv ext v (int (length (eval_loader st)))) (steps st)) L
                 @ map (\<lambda>(k, v). Log_score k (fdiv ext v (int (length (eval_loader st))))) (total_eval_score st)
                 @ map (\<lambda>(k, v). Add_scalar k (fdiv ext v (int (length (eval_loader st)))) (steps st)) L
                 @ map (\<lambda>(k, v). Add_scalar k (fdiv ext v (int (length (eval_loader st)))) (steps st)) (total_eval_score st),
               total_eval_loss := [], total_eval_score := [], training := True\<rparr>"
    by auto
  moreover have "eval_batches ext ?st0 (eval_loader st) = Done (?st0\<lparr>total_eval_loss := L\<rparr>)"
    using b f by simp
  ultimately show ?thesis by auto
qed

theorem eval_epoch_averages_witness:
  "eval_epoch example_externals
     (example_trainer callable_criterion (example_config 1 1 1 3) []
        [\<lparr>mel = 2, label = 1\<rparr>, \<lparr>mel = 4, label = 1\<rparr>])
   = Done (example_trainer callable_criterion (example_config 1 1 1 3) []
        [\<lparr>mel = 2, label = 1\<rparr>, \<lparr>mel = 4, label = 1\<rparr>]
        \<lparr>trace := [Log_eval_start 0, Log_eval_finished 0,
                   Log_metric ''eval/onset_loss'' 5 0, Log_metric ''eval/score'' 2 0,
                   Add_scalar ''eval/onset_loss'' 5 0, Add_scalar ''eval/score'' 2 0]\<rparr>)"
proof -
  let ?S = "example_trainer callable_criterion (example_config 1 1 1 3) []
        [\<lparr>mel = 2, label = 1\<rparr>, \<lparr>mel = 4, label = 1\<rparr>]"
  have b: "eval_batches example_externals (?S\<lparr>trace := trace ?S @ [Log_eval_start (steps ?S)], training := False\<rparr>)
             (eval_loader ?S)
           = Done (?S\<lparr>trace := trace ?S @ [Log_eval_start (steps ?S)], training := False,
                      total_eval_loss := [(''eval/onset_loss'', 10), (''eval/score'', 4)]\<rparr>)"
    by (simp add: example_trainer_def example_externals_def callable_criterion_def eval_step_def
          acc_add_def acc_touch_def acc_get_def sq_err_def abs_err_def example_config_def)
  obtain st' where d: "eval_epoch example_externals ?S = Done st'"
    using eval_epoch_Done [OF b] by simp
  have n: "eval_loader ?S \<noteq> [] \<or> (total_eval_loss ?S = [] \<and> total_eval_score ?S = [])"
    by (simp add: example_trainer_def)
  from eval_epoch_averages [OF d n] b d show ?thesis
    by (simp add: example_trainer_def example_externals_def)
qed

text \<open>
  C6. With the criterion registry that \<^verbatim>\<open>main\<close> builds, the loss name
  \<^verbatim>\<open>'BCEWithLogits'\<close> is not a key, so constructing the trainer raises \<open>KeyError\<close>; and an
  evaluation step of any trainer holding that registry raises \<open>TypeError\<close> when it calls
  the registry to compute the score, after the loss has been accumulated. No score is
  computed.
\<close>

theorem eval_step_main_registry:
  "Trainer_init steps0 epochs0 train_bs eval_bs model0 (main_criterion mse bce) optimizer0 scheduler0
     (cfg\<lparr>cfg_loss_fn := ''BCEWithLogits''\<rparr>) fs = Inl (KeyError ''BCEWithLogits'')
   \<and> eval_step ext (st\<lparr>criterion := main_criterion mse bce\<rparr>) b =
       Raised TypeError
         (st\<lparr>criterion := main_criterion mse bce,
             total_eval_loss :=
               acc_touch ext
                 (acc_add ext (total_eval_loss st) ''eval/onset_loss''
                    (loss_fn st (forward ext (training st) (model st) (mel b)) (label b)))
                 ''eval/score''\<rparr>)"
  by (simp add: Trainer_init_def main_criterion_def dict_obj_def eval_step_def Let_def)

section \<open>Checkpoints\<close>

text \<open>
  C4. When the loader finds at the path the file that \<open>save_checkpoint\<close> wrote there, a
  full load hands the saved parameters to the module and, if the module accepts them,
  sets steps, epochs, optimizer state and scheduler state to the saver's values at save
  time; a load of the parameters only changes nothing but the model.
\<close>

theorem load_after_save:
  assumes "files loader (dir @ ''/'' @ f_name) = files (save_checkpoint saver dir f_name) (dir @ ''/'' @ f_name)"
  shows "load_checkpoint ext loader (dir @ ''/'' @ f_name) False =
           (case load_state_dict ext (model loader) (model saver) of
              Inl e \<Rightarrow> Raised e loader
            | Inr p \<Rightarrow> Done (loader\<lparr>model := p, steps := steps saver, epochs := epochs saver,
                                   optimizer := optimizer saver, scheduler := scheduler saver\<rparr>))
       \<and> load_checkpoint ext loader (dir @ ''/'' @ f_name) True =
           (case load_state_dict ext (model loader) (model saver) of
              Inl e \<Rightarrow> Raised e loader
            | Inr p \<Rightarrow> Done (loader\<lparr>model := p\<rparr>))"
  using assms
  by (simp add: load_checkpoint_def save_checkpoint_def torch_load_def Let_def split: sum.splits)

theorem load_after_save_witness:
  "(let saver = example_trainer callable_criterion (example_config 1 1 1 3) [] []
         \<lparr>steps := 7, epochs := 2, optimizer := 7, scheduler := 4, model := [([2, 3], 8)]\<rparr>;
        loader = example_trainer callable_criterion (example_config 1 1 1 3) [] []
         \<lparr>files := files (save_checkpoint saver ''ckpt'' ''checkpoint-7steps.pkl'')\<rparr>
    in load_checkpoint example_externals loader (''ckpt'' @ ''/'' @ ''checkpoint-7steps.pkl'') False
         = Done (loader\<lparr>model := [([2, 3], 8)], steps := 7, epochs := 2, optimizer := 7, scheduler := 4\<rparr>)
     \<and> load_checkpoint example_externals loader (''ckpt'' @ ''/'' @ ''checkpoint-7steps.pkl'') True
         = Done (loader\<lparr>model := [([2, 3], 8)]\<rparr>))"
proof -
  let ?saver = "example_trainer callable_criterion (example_config 1 1 1 3) [] []
         \<lparr>steps := 7, epochs := 2, optimizer := 7, scheduler := 4, model := [([2, 3], 8)]\<rparr>"
  let ?loader = "example_trainer callable_criterion (example_config 1 1 1 3) [] []
         \<lparr>files := files (save_checkpoint ?saver ''ckpt'' ''checkpoint-7steps.pkl'')\<rparr>"
  have h: "files ?loader (''ckpt'' @ ''/'' @ ''checkpoint-7steps.pkl'')
         = files (save_checkpoint ?saver ''ckpt'' ''checkpoint-7steps.pkl'') (''ckpt'' @ ''/'' @ ''checkpoint-7steps.pkl'')"
    by simp
  have m: "load_state_dict example_externals (model ?loader) (model ?saver) = Inr [([2, 3], 8)]"
    by (simp add: example_externals_def example_trainer_def strict_load_def)
  show ?thesis
    using load_after_save [OF h, of example_externals] m
    by (simp add: Let_def)
qed

text \<open>
  C8 (as amended). What a load does is decided by the file: a missing file raises
  \<open>FileNotFoundError\<close> and leaves the trainer as it was; a file that is not a bundle does
  not unpickle; a bundle without \<^verbatim>\<open>model\<close> raises \<open>KeyError\<close>; parameters that the module
  rejects raise the module's error; otherwise the first key among those read that the
  bundle lacks raises \<open>KeyError\<close> with that key, and the load returns when none is
  lacking. As long as the module does not raise it, \<open>CheckpointError\<close> is never raised.
\<close>

theorem load_checkpoint_failures:
  "(\<exists>s. load_checkpoint ext st path lop =
      (case files st path of
         None \<Rightarrow> Raised FileNotFoundError st
       | Some (Checkpoint sd) \<Rightarrow>
           (case b_model sd of
              None \<Rightarrow> Raised (KeyError ''model'') st
            | Some p \<Rightarrow>
               (case load_state_dict ext (model st) p of
                  Inl e \<Rightarrow> Raised e st
                | Inr p' \<Rightarrow>
                   (case find (\<lambda>k. \<not> has_key sd k) (keys_read lop) of
                      None \<Rightarrow> Done s
                    | Some k \<Rightarrow> Raised (KeyError k) s)))
       | Some _ \<Rightarrow> Raised UnpicklingError st))
   \<and> ((\<forall>p q. load_state_dict ext p q \<noteq> Inl CheckpointError) \<longrightarrow>
        load_checkpoint ext st path lop \<noteq> Raised CheckpointError s')"
  by (auto simp add: load_checkpoint_def torch_load_def keys_read_def has_key_def Let_def
      split: option.splits fs_entry.splits sum.splits)

theorem load_checkpoint_failures_witness:
  "(\<exists>s. load_checkpoint example_externals
           (example_trainer callable_criterion (example_config 1 1 1 3) [] [] \<lparr>files := example_fs\<rparr>)
           ''ckpt/params.pkl'' False = Raised (KeyError ''steps'') s)
   \<and> (\<forall>p q. load_state_dict example_externals p q \<noteq> Inl CheckpointError)
   \<and> load_checkpoint example_externals
           (example_trainer callable_criterion (example_config 1 1 1 3) [] [] \<lparr>files := example_fs\<rparr>)
           ''ckpt/params.pkl'' False
         \<noteq> Raised CheckpointError
             (example_trainer callable_criterion (example_config 1 1 1 3) [] [] \<lparr>files := example_fs\<rparr>)"
proof -
  let ?S = "example_trainer callable_criterion (example_config 1 1 1 3) [] [] \<lparr>files := example_fs\<rparr>"
  have a: "\<forall>p q. load_state_dict example_externals p q \<noteq> Inl CheckpointError"
    by (simp add: example_externals_def strict_load_def)
  show ?thesis
    using load_checkpoint_failures [of example_externals ?S "''ckpt/params.pkl''" False ?S] a
    by (simp add: example_trainer_def example_fs_def example_externals_def strict_load_def
          keys_read_def has_key_def)
qed

text \<open>
  The claim as stated fails: loading a path that holds no file raises
  \<open>FileNotFoundError\<close>, and a bundle that has only the key \<^verbatim>\<open>model\<close> loads without any
  failure when only the parameters are asked for.
\<close>

theorem load_checkpoint_counterexample:
  "load_checkpoint example_externals
     (example_trainer callable_criterion (example_config 1 1 1 3) [] [] \<lparr>files := example_fs\<rparr>)
     ''ckpt/checkpoint-300steps.pkl'' False
   = Raised FileNotFoundError
       (example_trainer callable_criterion (example_config 1 1 1 3) [] [] \<lparr>files := example_fs\<rparr>)
   \<and> FileNotFoundError \<noteq> CheckpointError
   \<and> load_checkpoint example_externals
       (example_trainer callable_criterion (example_config 1 1 1 3) [] [] \<lparr>files := example_fs\<rparr>)
       ''ckpt/params.pkl'' True
     = Done (example_trainer callable_criterion (example_config 1 1 1 3) [] []
               \<lparr>files := example_fs, model := [([2, 3], 9)]\<rparr>)"
  by (simp add: load_checkpoint_def torch_load_def example_trainer_def example_fs_def
        example_externals_def strict_load_def)

section \<open>Export\<close>

text \<open>Whatever makes the export fail, the file system is left as it was.\<close>

lemma save_model_failure_writes_nothing:
  "fst (save_model ext fs config_path checkpoint) \<noteq> None \<Longrightarrow>
   snd (save_model ext fs config_path checkpoint) = fs"
  by (auto simp add: save_model_def Let_def split: option.splits fs_entry.splits sum.splits if_splits)

text \<open>
  C9 (as amended). When the module built from the configuration rejects the parameters
  of the checkpoint, the export fails with the very exception that \<^verbatim>\<open>load_state_dict\<close>
  raised, and the file system is unchanged: no artifact has been written.
\<close>

theorem save_model_shape_mismatch:
  assumes "fs config_path = Some (Config_yaml cfg)"
      and "fs checkpoint = Some (Checkpoint sd)"
      and "b_model sd = Some p"
      and "load_state_dict ext (MoodRecog ext (model_config cfg)) p = Inl e"
  shows "save_model ext fs config_path checkpoint = (Some e, fs)"
  using assms by (simp add: save_model_def torch_load_def Let_def)

theorem save_model_shape_mismatch_witness:
  "save_model example_externals example_fs ''config.yaml'' ''ckpt/checkpoint-100steps.pkl''
   = (Some RuntimeError, example_fs)"
  using save_model_shape_mismatch
    [where fs = example_fs and config_path = "''config.yaml''"
       and checkpoint = "''ckpt/checkpoint-100steps.pkl''" and ext = example_externals
       and cfg = "\<lparr> trainer_checkpoint_path = ''checkpoints'', version = ''0_1'', model_config = [[2, 3]] \<rparr>"
       and sd = "\<lparr> b_optimizer = Some 100, b_scheduler = Some 0, b_steps = Some 100,
                   b_epochs = Some 3, b_model = Some [([4, 3], 5)] \<rparr>"
       and p = "[([4, 3], 5)]" and e = RuntimeError]
  by (simp add: example_fs_def example_externals_def strict_load_def)

text \<open>
  The claim as stated fails: for a checkpoint of another architecture the exception is
  the library's \<open>RuntimeError\<close>, not \<open>CheckpointError\<close>.
\<close>

theorem save_model_counterexample:
  "save_model example_externals example_fs ''config.yaml'' ''ckpt/checkpoint-100steps.pkl''
   = (Some RuntimeError, example_fs) \<and> RuntimeError \<noteq> CheckpointError"
  by (simp add: save_model_def torch_load_def example_fs_def example_externals_def strict_load_def Let_def)

section \<open>The training loop: the step counter\<close>

subsection \<open>One pass of the loop body\<close>

lemma step_values_simps [simp]:
  "step_values [] = []"
  "step_values (e # tr) = step_of e @ step_values tr"
  "step_values (tr @ tr') = step_values tr @ step_values tr'"
  by (simp_all add: step_values_def)

lemma step_values_map_nil [simp]:
  "(\<And>x. step_of (f x) = []) \<Longrightarrow> step_values (map f d) = []"
  by (induction d) simp_all

lemma actions_simps [simp]:
  "actions [] = []"
  "actions (e # tr) = action_of e @ actions tr"
  "actions (tr @ tr') = actions tr @ actions tr'"
  by (simp_all add: actions_def)

lemma actions_map_nil:
  "(\<And>x. x \<in> set d \<Longrightarrow> action_of (f x) = []) \<Longrightarrow> actions (map f d) = []"
  by (induction d) simp_all

lemma same_progress_refl [simp]: "same_progress st st"
  by (simp add: same_progress_def)

lemma same_progress_trans: "same_progress a b \<Longrightarrow> same_progress b c \<Longrightarrow> same_progress a c"
  by (simp add: same_progress_def)

lemma check_log_interval_progress: "same_progress st (state_of (check_log_interval ext st))"
  by (simp add: check_log_interval_def same_progress_def Let_def write_to_tensorboard_def acc_div_def split_def)

lemma check_save_interval_progress: "same_progress st (state_of (check_save_interval st))"
  by (simp add: check_save_interval_def same_progress_def Let_def save_checkpoint_def)

lemma eval_epoch_progress: "same_progress st (state_of (eval_epoch ext st))"
proof -
  let ?st0 = "st\<lparr>trace := trace st @ [Log_eval_start (steps st)], training := False\<rparr>"
  show ?thesis
  proof (cases "eval_batches ext ?st0 (eval_loader st)")
    case (Done st1)
    from eval_epoch_Done [OF Done] show ?thesis
      by (simp add: same_progress_def split_def)
  next
    case (Raised e st1)
    define L where "L = total_eval_loss st1"
    have "st1 = ?st0\<lparr>total_eval_loss := L\<rparr>"
      using eval_batches_frame [of ext ?st0 "eval_loader st"] Raised by (simp add: L_def)
    then have "same_progress st st1"
      by (simp add: same_progress_def)
    then show ?thesis using Raised by (simp add: eval_epoch_def Let_def)
  qed
qed

lemma check_eval_interval_progress: "same_progress st (state_of (check_eval_interval ext st))"
  using eval_epoch_progress [of st ext] by (simp add: check_eval_interval_def Let_def)

lemma epoch_end_progress:
  "steps (epoch_end st) = steps st \<and> finish_train (epoch_end st) = finish_train st \<and>
   config (epoch_end st) = config st \<and> train_loader (epoch_end st) = train_loader st \<and>
   step_values (trace (epoch_end st)) = step_values (trace st) \<and> epochs (epoch_end st) = epochs st + 1"
  by (simp add: epoch_end_def Let_def)

lemma train_step_progress:
  "steps (train_step ext st b) = steps st + 1 \<and>
   epochs (train_step ext st b) = epochs st \<and>
   finish_train (train_step ext st b) = (finish_train st \<or> train_max_steps (config st) \<le> steps st + 1) \<and>
   config (train_step ext st b) = config st \<and>
   train_loader (train_step ext st b) = train_loader st \<and>
   eval_loader (train_step ext st b) = eval_loader st \<and>
   step_values (trace (train_step ext st b)) = step_values (trace st) @ [steps st + 1]"
  by (simp add: train_step_def check_train_finish_def Let_def split_def)

lemma and_then_progress:
  assumes "same_progress st (state_of r)" and "\<And>s. same_progress s (state_of (f s))"
  shows "same_progress st (state_of (and_then r f))"
proof (cases r)
  case (Done s)
  then show ?thesis using assms(1) assms(2) [of s] by (auto intro: same_progress_trans)
next
  case (Raised e s)
  then show ?thesis using assms(1) by simp
qed

lemma train_iteration_progress:
  "steps (state_of (train_iteration ext st b)) = steps st + 1 \<and>
   epochs (state_of (train_iteration ext st b)) = epochs st \<and>
   finish_train (state_of (train_iteration ext st b)) = (finish_train st \<or> train_max_steps (config st) \<le> steps st + 1) \<and>
   config (state_of (train_iteration ext st b)) = config st \<and>
   train_loader (state_of (train_iteration ext st b)) = train_loader st \<and>
   eval_loader (state_of (train_iteration ext st b)) = eval_loader st \<and>
   step_values (trace (state_of (train_iteration ext st b))) = step_values (trace st) @ [steps st + 1]"
proof -
  have "same_progress (train_step ext st b) (state_of (train_iteration ext st b))"
    unfolding train_iteration_def
    by (intro and_then_progress check_log_interval_progress check_save_interval_progress
          check_eval_interval_progress)
  then show ?thesis
    using train_step_progress [of ext st b] by (simp add: same_progress_def)
qed

subsection \<open>One epoch\<close>

lemma upto_append_range: "a \<le> b \<Longrightarrow> b \<le> c \<Longrightarrow> [a + 1..b] @ [b + 1..c] = [a + 1..(c::int)]"
proof (cases "a = b")
  case True
  then show ?thesis by simp
next
  case False
  assume "a \<le> b" "b \<le> c"
  with False have "a + 1 \<le> b" by simp
  from upto_split2 [OF this \<open>b \<le> c\<close>] show ?thesis by simp
qed

text \<open>
  Case analysis that follows the \<^verbatim>\<open>for\<close> loop: no batch is left; the pass over the next batch
  raises or sets the finish flag; or it returns with the flag unset and the loop goes on.
\<close>

lemma train_batches_cases [case_names Nil Stop Continue]:
  assumes "\<And>st. P st []"
      and "\<And>st b bs. (\<exists>e s. train_iteration ext st b = Raised e s) \<or>
                        (\<exists>s. train_iteration ext st b = Done s \<and> finish_train s) \<Longrightarrow>
                      train_batches ext st (b # bs) = train_iteration ext st b \<Longrightarrow>
                      P st (b # bs)"
      and "\<And>st b bs s. train_iteration ext st b = Done s \<Longrightarrow> \<not> finish_train s \<Longrightarrow>
                        train_batches ext st (b # bs) = train_batches ext s bs \<Longrightarrow>
                        P s bs \<Longrightarrow> P st (b # bs)"
  shows "P st bs"
proof (induction bs arbitrary: st)
  case Nil
  show ?case using assms(1) .
next
  case (Cons b bs)
  show ?case
  proof (cases "train_iteration ext st b")
    case (Raised e s)
    then show ?thesis by (intro assms(2)) simp_all
  next
    case (Done s)
    show ?thesis
    proof (cases "finish_train s")
      case True
      then show ?thesis using Done by (intro assms(2)) simp_all
    next
      case False
      have "train_batches ext st (b # bs) = train_batches ext s bs" using Done False by simp
      from assms(3) [OF Done False this Cons.IH] show ?thesis .
    qed
  qed
qed

lemma train_batches_frame:
  "config (state_of (train_batches ext st bs)) = config st \<and>
   train_loader (state_of (train_batches ext st bs)) = train_loader st"
proof (induction st bs rule: train_batches_cases [where ext = ext])
  case (Nil st)
  show ?case using epoch_end_progress [of st] by simp
next
  case (Stop st b bs)
  show ?case unfolding Stop(2) using train_iteration_progress [of ext st b] by simp
next
  case (Continue st b bs s)
  show ?case unfolding Continue(3) using Continue(1,4) train_iteration_progress [of ext st b] by simp
qed

lemma train_batches_steps:
  "steps st \<le> steps (state_of (train_batches ext st bs)) \<and>
   steps (state_of (train_batches ext st bs)) \<le> steps st + int (length bs) \<and>
   step_values (trace (state_of (train_batches ext st bs)))
     = step_values (trace st) @ [steps st + 1..steps (state_of (train_batches ext st bs))]"
proof (induction st bs rule: train_batches_cases [where ext = ext])
  case (Nil st)
  show ?case using epoch_end_progress [of st] by simp
next
  case (Stop st b bs)
  show ?case unfolding Stop(2) using train_iteration_progress [of ext st b] by simp
next
  case (Continue st b bs s)
  let ?s' = "state_of (train_batches ext s bs)"
  have s: "steps s = steps st + 1" "step_values (trace s) = step_values (trace st) @ [steps st + 1]"
    using train_iteration_progress [of ext st b] Continue(1) by simp_all
  have le: "steps s \<le> steps ?s'" using Continue(4) by simp
  have "step_values (trace ?s') = step_values (trace st) @ ([steps st + 1..steps s] @ [steps s + 1..steps ?s'])"
    using Continue(4) s by simp
  also have "[steps st + 1..steps s] @ [steps s + 1..steps ?s'] = [steps st + 1..steps ?s']"
    by (rule upto_append_range) (use s le in simp_all)
  finally have sv: "step_values (trace ?s') = step_values (trace st) @ [steps st + 1..steps ?s']" .
  have "steps st \<le> steps ?s'" using le s by simp
  moreover have "steps ?s' \<le> steps st + int (length (b # bs))" using Continue(4) s by simp
  ultimately show ?case unfolding Continue(3) using sv by simp
qed

lemma train_batches_finish:
  "finish_train (state_of (train_batches ext st bs)) \<longleftrightarrow>
     finish_train st \<or> (steps st < steps (state_of (train_batches ext st bs)) \<and>
                          train_max_steps (config st) \<le> steps (state_of (train_batches ext st bs)))"
proof (induction st bs rule: train_batches_cases [where ext = ext])
  case (Nil st)
  show ?case using epoch_end_progress [of st] by simp
next
  case (Stop st b bs)
  show ?case unfolding Stop(2) using train_iteration_progress [of ext st b] by simp
next
  case (Continue st b bs s)
  let ?s' = "state_of (train_batches ext s bs)"
  have s: "steps s = steps st + 1" "config s = config st" "\<not> finish_train st"
    "\<not> train_max_steps (config st) \<le> steps st + 1"
    using train_iteration_progress [of ext st b] Continue(1,2) by simp_all
  have le: "steps s \<le> steps ?s'" using train_batches_steps [of s ext bs] by simp
  have "finish_train ?s' \<longleftrightarrow> steps s < steps ?s' \<and> train_max_steps (config st) \<le> steps ?s'"
    using Continue(2,4) s(2) by simp
  also have "\<dots> \<longleftrightarrow> steps st < steps ?s' \<and> train_max_steps (config st) \<le> steps ?s'"
    using s(1,4) le by linarith
  finally show ?case unfolding Continue(3) using s(3) by simp
qed

lemma train_batches_bound:
  assumes "\<not> finish_train st"
  shows "steps (state_of (train_batches ext st bs)) \<le> max (train_max_steps (config st)) (steps st + 1) \<and>
   (finish_train (state_of (train_batches ext st bs)) \<longrightarrow>
      steps (state_of (train_batches ext st bs)) = max (train_max_steps (config st)) (steps st + 1))"
  using assms
proof (induction st bs rule: train_batches_cases [where ext = ext])
  case (Nil st)
  show ?case using epoch_end_progress [of st] Nil by (simp add: max_def)
next
  case (Stop st b bs)
  have "steps (state_of (train_iteration ext st b)) = steps st + 1"
    "finish_train (state_of (train_iteration ext st b)) = (train_max_steps (config st) \<le> steps st + 1)"
    using train_iteration_progress [of ext st b] Stop(3) by simp_all
  then show ?case unfolding Stop(2) by (simp add: max_def)
next
  case (Continue st b bs s)
  let ?s' = "state_of (train_batches ext s bs)"
  have s: "steps s = steps st + 1" "config s = config st"
    "\<not> train_max_steps (config st) \<le> steps st + 1"
    using train_iteration_progress [of ext st b] Continue(1,2,5) by simp_all
  have mx: "max (train_max_steps (config s)) (steps s + 1) = max (train_max_steps (config st)) (steps st + 1)"
    using s by (simp add: max_def)
  show ?case unfolding Continue(3) using Continue(4) [OF Continue(2)] unfolding mx .
qed

lemma train_batches_full_epoch:
  assumes "train_batches ext st bs = Done s" and "\<not> finish_train s"
  shows "steps s = steps st + int (length bs) \<and> epochs s = epochs st + 1"
  using assms
proof (induction st bs arbitrary: s rule: train_batches_cases [where ext = ext])
  case (Nil st)
  then show ?case using epoch_end_progress [of st] by auto
next
  case (Stop st b bs)
  then show ?case by auto
next
  case (Continue st b bs s1)
  have s: "steps s1 = steps st + 1" "epochs s1 = epochs st"
    using train_iteration_progress [of ext st b] Continue(1) by simp_all
  have "train_batches ext s1 bs = Done s" using Continue(3,5) by simp
  from Continue(4) [OF this Continue(6)] s show ?case by simp
qed

subsection \<open>The whole run\<close>

text \<open>Induction over the epochs of a run that ends.\<close>

lemma run_loop_cases [consumes 1, case_names Stop Continue]:
  assumes "run_loop ext st = Some r"
      and "\<And>st r. train_epoch ext st = r \<Longrightarrow>
             (\<exists>e s. r = Raised e s) \<or> (\<exists>s. r = Done s \<and> finish_train s) \<Longrightarrow> P st r"
      and "\<And>st s r. train_epoch ext st = Done s \<Longrightarrow> \<not> finish_train s \<Longrightarrow> P s r \<Longrightarrow> P st r"
  shows "P st r"
proof -
  have "run_loop ext' st = Some r \<Longrightarrow> ext' = ext \<Longrightarrow> P st r" for ext'
  proof (induction ext' st r rule: run_loop.raw_induct [rotated, consumes 1])
    case (1 run_loop' ext' st r)
    show ?case
    proof (cases "train_epoch ext st")
      case (Raised e s)
      then have "r = Raised e s" using 1(2,3) by simp
      then show ?thesis using Raised by (intro assms(2) [of st r]) simp_all
    next
      case (Done s)
      show ?thesis
      proof (cases "finish_train s")
        case True
        then have "r = Done s" using 1(2,3) Done by simp
        then show ?thesis using Done True by (intro assms(2) [of st r]) simp_all
      next
        case False
        then have "run_loop' ext' s = Some r" using 1(2,3) Done by simp
        from 1(1) [OF this 1(3)] have "P s r" .
        from assms(3) [OF Done False this] show ?thesis .
      qed
    qed
  qed
  then show ?thesis using assms(1) by simp
qed

lemma train_epoch_unfinished:
  assumes "train_epoch ext st = Done s" and "\<not> finish_train s"
  shows "steps st \<le> steps s" and "config s = config st" and "train_loader s = train_loader st"
    and "\<not> finish_train st"
    and "steps s = steps st \<or> steps s < train_max_steps (config st)"
    and "step_values (trace s) = step_values (trace st) @ [steps st + 1..steps s]"
    and "steps s = steps st + int (length (train_loader st))"
proof -
  let ?bs = "train_loader st"
  have d: "train_batches ext st ?bs = Done s" using assms(1) by (simp add: train_epoch_def)
  show le: "steps st \<le> steps s" using train_batches_steps [of st ext ?bs] d by simp
  show "config s = config st" "train_loader s = train_loader st"
    using train_batches_frame [of ext st ?bs] d by simp_all
  show "\<not> finish_train st" "steps s = steps st \<or> steps s < train_max_steps (config st)"
    using train_batches_finish [of ext st ?bs] d assms(2) le by auto
  show "step_values (trace s) = step_values (trace st) @ [steps st + 1..steps s]"
    using train_batches_steps [of st ext ?bs] d by simp
  show "steps s = steps st + int (length (train_loader st))"
    using train_batches_full_epoch [OF d assms(2)] by simp
qed

lemma run_loop_frame:
  assumes "run_loop ext st = Some r"
  shows "config (state_of r) = config st \<and> train_loader (state_of r) = train_loader st"
  using assms
proof (induction rule: run_loop_cases)
  case (Stop st r)
  then show ?case using train_batches_frame [of ext st "train_loader st"]
    by (simp add: train_epoch_def)
next
  case (Continue st s r)
  then show ?case using train_epoch_unfinished [OF Continue(1,2)] by simp
qed

lemma run_loop_steps:
  assumes "run_loop ext st = Some r"
  shows "steps st \<le> steps (state_of r) \<and>
   step_values (trace (state_of r)) = step_values (trace st) @ [steps st + 1..steps (state_of r)]"
  using assms
proof (induction rule: run_loop_cases)
  case (Stop st r)
  then show ?case using train_batches_steps [of st ext "train_loader st"]
    by (simp add: train_epoch_def)
next
  case (Continue st s r)
  note u = train_epoch_unfinished [OF Continue(1,2)]
  have le: "steps s \<le> steps (state_of r)" using Continue(3) by simp
  have "step_values (trace (state_of r))
      = step_values (trace st) @ ([steps st + 1..steps s] @ [steps s + 1..steps (state_of r)])"
    using Continue(3) u(6) by simp
  also have "[steps st + 1..steps s] @ [steps s + 1..steps (state_of r)] = [steps st + 1..steps (state_of r)]"
    by (rule upto_append_range) (use u(1) le in simp_all)
  finally show ?case using u(1) le by simp
qed

lemma run_loop_bound:
  assumes "run_loop ext st = Some r" and "\<not> finish_train st"
  shows "steps (state_of r) \<le> max (train_max_steps (config st)) (steps st + 1) \<and>
   (finish_train (state_of r) \<longrightarrow>
      steps (state_of r) = max (train_max_steps (config st)) (steps st + 1))"
  using assms
proof (induction rule: run_loop_cases)
  case (Stop st r)
  then show ?case using train_batches_bound [of st ext "train_loader st"]
    by (simp add: train_epoch_def)
next
  case (Continue st s r)
  note u = train_epoch_unfinished [OF Continue(1,2)]
  have mx: "max (train_max_steps (config s)) (steps s + 1) = max (train_max_steps (config st)) (steps st + 1)"
    using u(1,2,5) by (auto simp add: max_def)
  show ?case using Continue(3) [OF Continue(2)] unfolding mx .
qed

lemma run_loop_finish:
  assumes "run_loop ext st = Some r"
  shows "finish_train (state_of r) \<longleftrightarrow>
     finish_train st \<or> (steps st < steps (state_of r) \<and> train_max_steps (config st) \<le> steps (state_of r))"
  using assms
proof (induction rule: run_loop_cases)
  case (Stop st r)
  then show ?case using train_batches_finish [of ext st "train_loader st"]
    by (simp add: train_epoch_def)
next
  case (Continue st s r)
  note u = train_epoch_unfinished [OF Continue(1,2)]
  have "finish_train (state_of r) \<longleftrightarrow>
          steps s < steps (state_of r) \<and> train_max_steps (config st) \<le> steps (state_of r)"
    using Continue(2,3) u(2) by simp
  also have "\<dots> \<longleftrightarrow> steps st < steps (state_of r) \<and> train_max_steps (config st) \<le> steps (state_of r)"
    using u(1,5) by linarith
  finally show ?case using u(4) by simp
qed

lemma run_loop_Done_finished:
  assumes "run_loop ext st = Some (Done s)"
  shows "finish_train s"
proof -
  have "run_loop ext st = Some r \<Longrightarrow> \<forall>s. r = Done s \<longrightarrow> finish_train s" for r
  proof (induction rule: run_loop_cases)
    case (Stop st r)
    then show ?case by auto
  next
    case (Continue st s r)
    then show ?case by simp
  qed
  then show ?thesis using assms by simp
qed

text \<open>
  Every epoch over a non-empty loader that does not finish takes the counter closer to
  the maximum, so the run ends; over an empty loader the epochs go on for ever.
\<close>

lemma run_loop_terminates:
  assumes "train_loader st \<noteq> []"
  shows "\<exists>r. run_loop ext st = Some r"
  using assms
proof (induction "nat (train_max_steps (config st) - steps st)" arbitrary: st rule: less_induct)
  case less
  show ?case
  proof (cases "train_epoch ext st")
    case (Raised e s)
    then show ?thesis by (subst run_loop.simps) simp
  next
    case (Done s)
    show ?thesis
    proof (cases "finish_train s")
      case True
      then show ?thesis using Done by (subst run_loop.simps) simp
    next
      case False
      note u = train_epoch_unfinished [OF Done False]
      have "steps st < steps s" using u(7) less.prems by simp
      then have "nat (train_max_steps (config s) - steps s) < nat (train_max_steps (config st) - steps st)"
        using u(2,5) by auto
      from less.hyps [OF this] u(3) less.prems obtain r where "run_loop ext s = Some r" by auto
      then show ?thesis using Done False by (subst run_loop.simps) simp
    qed
  qed
qed

lemma run_loop_empty_loader:
  assumes "train_loader st = []" and "\<not> finish_train st"
  shows "run_loop ext st = None"
proof -
  have "run_loop ext st = Some r \<Longrightarrow> train_loader st = [] \<longrightarrow> finish_train st" for r
  proof (induction rule: run_loop_cases)
    case (Stop st r)
    show ?case
    proof
      assume "train_loader st = []"
      then have "train_epoch ext st = Done (epoch_end st)" by (simp add: train_epoch_def)
      then show "finish_train st" using Stop epoch_end_progress [of st] by auto
    qed
  next
    case (Continue st s r)
    note u = train_epoch_unfinished [OF Continue(1,2)]
    show ?case using Continue(2,3) u(3) by auto
  qed
  then show ?thesis using assms by (cases "run_loop ext st") auto
qed

text \<open>\<^verbatim>\<open>run\<close> adds the final log line to a loop that returned, and nothing else.\<close>

lemma run_via_loop:
  assumes "run ext st = Some r"
  shows "\<exists>r'. run_loop ext st = Some r' \<and>
           steps (state_of r) = steps (state_of r') \<and>
           finish_train (state_of r) = finish_train (state_of r') \<and>
           step_values (trace (state_of r)) = step_values (trace (state_of r')) \<and>
           actions (trace (state_of r)) = actions (trace (state_of r')) \<and>
           (\<forall>s. r = Done s \<longrightarrow> (\<exists>s'. r' = Done s')) \<and>
           (\<forall>s'. r' = Done s' \<longrightarrow> (\<exists>s. r = Done s))"
proof (cases "run_loop ext st")
  case None
  then show ?thesis using assms by (simp add: run_def)
next
  case (Some r')
  then show ?thesis using assms by (cases r') (auto simp add: run_def)
qed

lemma run_Done_finished:
  assumes "run ext st = Some (Done s)"
  shows "finish_train s"
proof -
  from run_via_loop [OF assms] obtain r' where r': "run_loop ext st = Some r'"
    "finish_train s = finish_train (state_of r')" "\<exists>s'. r' = Done s'" by auto
  then obtain s' where "r' = Done s'" by blast
  with r' run_loop_Done_finished [of ext st s'] show ?thesis by simp
qed

subsection \<open>Two runs evaluated\<close>

lemmas trainer_defs =
  run_def train_epoch_def train_iteration_def
  example_trainer_def example_config_def example_externals_def callable_criterion_def
  train_step_def check_train_finish_def check_log_interval_def check_save_interval_def
  check_eval_interval_def eval_epoch_def eval_step_def save_checkpoint_def epoch_end_def
  write_to_tensorboard_def acc_add_def acc_touch_def acc_get_def acc_div_def final_batch_idx_def
  Let_def sq_err_def abs_err_def main_criterion_def dict_obj_def

lemma example_run_returns:
  "\<exists>s. run example_externals example_run_start = Some (Done s) \<and> steps s = 6"
  by (simp add: run_loop.simps example_run_start_def trainer_defs)

lemma example_resumed_run:
  "map_option (step_values \<circ> trace \<circ> state_of) (run example_externals example_resumed_start) = Some [7]"
  by (simp add: run_loop.simps example_resumed_start_def example_run_start_def trainer_defs)

text \<open>
  C3. A training step adds exactly 1 to the step counter; the three interval checks
  (with all that they call), and the epoch boundary, leave it as it is, so one pass of
  the loop body adds exactly 1, and an epoch that runs through all batches adds the
  number of batches while the epoch counter goes up by one. Over a whole run, whether
  it returns or raises, the values that the counter takes are the consecutive integers
  from the start value plus 1 up to the final value: none is skipped, and the counter
  never goes down.
\<close>

theorem step_counter_increments:
  "steps (train_step ext st b) = steps st + 1 \<and>
   steps (state_of (check_log_interval ext st)) = steps st \<and>
   steps (state_of (check_save_interval st)) = steps st \<and>
   steps (state_of (check_eval_interval ext st)) = steps st \<and>
   steps (state_of (train_iteration ext st b)) = steps st + 1 \<and>
   steps (epoch_end st) = steps st \<and>
   (\<forall>s. train_epoch ext st = Done s \<and> \<not> finish_train s \<longrightarrow>
        steps s = steps st + int (length (train_loader st)) \<and> epochs s = epochs st + 1) \<and>
   (\<forall>r. run ext st = Some r \<longrightarrow>
        steps st \<le> steps (state_of r) \<and>
        step_values (trace (state_of r)) = step_values (trace st) @ [steps st + 1..steps (state_of r)])"
proof -
  have 1: "steps (train_step ext st b) = steps st + 1"
    using train_step_progress [of ext st b] by simp
  have 2: "steps (state_of (check_log_interval ext st)) = steps st"
    using check_log_interval_progress [of st ext] by (simp add: same_progress_def)
  have 3: "steps (state_of (check_save_interval st)) = steps st"
    using check_save_interval_progress [of st] by (simp add: same_progress_def)
  have 4: "steps (state_of (check_eval_interval ext st)) = steps st"
    using check_eval_interval_progress [of st ext] by (simp add: same_progress_def)
  have 5: "steps (state_of (train_iteration ext st b)) = steps st + 1"
    using train_iteration_progress [of ext st b] by simp
  have 6: "steps (epoch_end st) = steps st"
    using epoch_end_progress [of st] by simp
  have 7: "\<forall>s. train_epoch ext st = Done s \<and> \<not> finish_train s \<longrightarrow>
        steps s = steps st + int (length (train_loader st)) \<and> epochs s = epochs st + 1"
  proof (intro allI impI)
    fix s
    assume "train_epoch ext st = Done s \<and> \<not> finish_train s"
    then have "train_batches ext st (train_loader st) = Done s" "\<not> finish_train s"
      by (simp_all add: train_epoch_def)
    then show "steps s = steps st + int (length (train_loader st)) \<and> epochs s = epochs st + 1"
      by (rule train_batches_full_epoch)
  qed
  have 8: "\<forall>r. run ext st = Some r \<longrightarrow>
        steps st \<le> steps (state_of r) \<and>
        step_values (trace (state_of r)) = step_values (trace st) @ [steps st + 1..steps (state_of r)]"
  proof (intro allI impI)
    fix r
    assume "run ext st = Some r"
    from run_via_loop [OF this] obtain r' where r': "run_loop ext st = Some r'"
      "steps (state_of r) = steps (state_of r')"
      "step_values (trace (state_of r)) = step_values (trace (state_of r'))"
      by (elim exE conjE) (rule that)
    from run_loop_steps [OF r'(1)]
    show "steps st \<le> steps (state_of r) \<and>
        step_values (trace (state_of r)) = step_values (trace st) @ [steps st + 1..steps (state_of r)]"
      unfolding r'(2,3) .
  qed
  show ?thesis by (intro conjI) (rule 1 2 3 4 5 6 7 8)+
qed

theorem step_counter_increments_witness:
  "\<exists>s. run example_externals example_run_start = Some (Done s) \<and>
       step_values (trace s) = [1, 2, 3, 4, 5, 6]"
proof -
  from example_run_returns obtain s
    where s: "run example_externals example_run_start = Some (Done s)" "steps s = 6" by blast
  have "steps example_run_start = 0" "trace example_run_start = []"
    by (simp_all add: example_run_start_def example_trainer_def)
  with step_counter_increments [where ext = example_externals and st = example_run_start] s
  have "step_values (trace s) = [1, 2, 3, 4, 5, 6]" by (simp add: upto.simps)
  with s(1) show ?thesis by blast
qed

text \<open>
  C2 (as amended). For a run that starts with the step counter below
  \<open>train_max_steps\<close> and the finish flag unset: a training step sets the flag exactly when
  its increment brings the counter to the maximum; a run over a non-empty training
  loader ends; and whenever a run ends, by returning or by an exception, the training
  steps taken are those with the counter values from the start value plus 1 up to the
  final value, the final value is at most the maximum, the flag is set iff the counter
  is at the maximum, and a run that returns has stopped with the counter at the maximum,
  wherever in the epoch that was.
\<close>

theorem training_stops_at_max_steps:
  assumes "steps st < train_max_steps (config st)" and "\<not> finish_train st"
  shows "(finish_train (train_step ext st b) \<longleftrightarrow> steps (train_step ext st b) = train_max_steps (config st)) \<and>
   (train_loader st \<noteq> [] \<longrightarrow> (\<exists>r. run ext st = Some r)) \<and>
   (\<forall>r. run ext st = Some r \<longrightarrow>
        step_values (trace (state_of r)) = step_values (trace st) @ [steps st + 1..steps (state_of r)] \<and>
        steps (state_of r) \<le> train_max_steps (config st) \<and>
        (finish_train (state_of r) \<longleftrightarrow> steps (state_of r) = train_max_steps (config st)) \<and>
        (\<forall>s. r = Done s \<longrightarrow> finish_train s \<and> steps s = train_max_steps (config st)))"
proof -
  let ?N = "train_max_steps (config st)"
  have 1: "finish_train (train_step ext st b) \<longleftrightarrow> steps (train_step ext st b) = ?N"
    using train_step_progress [of ext st b] assms by auto
  have 2: "train_loader st \<noteq> [] \<longrightarrow> (\<exists>r. run ext st = Some r)"
  proof
    assume "train_loader st \<noteq> []"
    from run_loop_terminates [OF this, of ext] obtain r where "run_loop ext st = Some r" ..
    then show "\<exists>r. run ext st = Some r" by (cases r) (simp_all add: run_def)
  qed
  have 3: "\<forall>r. run ext st = Some r \<longrightarrow> step_values (trace (state_of r)) = step_values (trace st) @ [steps st + 1..steps (state_of r)] \<and>
        steps (state_of r) \<le> ?N \<and>
        (finish_train (state_of r) \<longleftrightarrow> steps (state_of r) = ?N) \<and>
        (\<forall>s. r = Done s \<longrightarrow> finish_train s \<and> steps s = ?N)"
  proof (intro allI impI)
    fix r
    assume run: "run ext st = Some r"
    from run_via_loop [OF run] obtain r' where r': "run_loop ext st = Some r'"
      "steps (state_of r) = steps (state_of r')"
      "finish_train (state_of r) = finish_train (state_of r')"
      "step_values (trace (state_of r)) = step_values (trace (state_of r'))"
      by (elim exE conjE) (rule that)
    have mx: "max ?N (steps st + 1) = ?N" using assms(1) by simp
    note b = run_loop_bound [OF r'(1) assms(2), unfolded mx]
    note f = run_loop_finish [OF r'(1)]
    note v = run_loop_steps [OF r'(1)]
    have a: "step_values (trace (state_of r)) = step_values (trace st) @ [steps st + 1..steps (state_of r)]"
      using v unfolding r'(2,4) by simp
    have c: "steps (state_of r) \<le> ?N" using b unfolding r'(2) by simp
    have fin: "finish_train (state_of r') \<longleftrightarrow> steps (state_of r') = ?N"
    proof
      assume "finish_train (state_of r')"
      then show "steps (state_of r') = ?N" using b by simp
    next
      assume "steps (state_of r') = ?N"
      then show "finish_train (state_of r')" using f assms(1) by simp
    qed
    have d: "finish_train (state_of r) \<longleftrightarrow> steps (state_of r) = ?N"
      unfolding r'(2,3) by (rule fin)
    have e: "\<forall>s. r = Done s \<longrightarrow> finish_train s \<and> steps s = ?N"
    proof (intro allI impI)
      fix s
      assume "r = Done s"
      then have "finish_train s" using run_Done_finished [of ext st s] run by simp
      then show "finish_train s \<and> steps s = ?N" using d \<open>r = Done s\<close> by simp
    qed
    show "step_values (trace (state_of r)) = step_values (trace st) @ [steps st + 1..steps (state_of r)] \<and>
        steps (state_of r) \<le> ?N \<and>
        (finish_train (state_of r) \<longleftrightarrow> steps (state_of r) = ?N) \<and>
        (\<forall>s. r = Done s \<longrightarrow> finish_train s \<and> steps s = ?N)"
      by (intro conjI) (rule a c d e)+
  qed
  show ?thesis by (intro conjI) (rule 1 2 3)+
qed

theorem training_stops_at_max_steps_witness:
  "\<exists>s. run example_externals example_run_start = Some (Done s) \<and> finish_train s \<and> steps s = 6 \<and>
       step_values (trace s) = [1, 2, 3, 4, 5, 6]"
proof -
  from example_run_returns obtain s
    where s: "run example_externals example_run_start = Some (Done s)" by blast
  have h: "steps example_run_start = 0" "trace example_run_start = []"
    "train_max_steps (config example_run_start) = 6" "\<not> finish_train example_run_start"
    by (simp_all add: example_run_start_def example_trainer_def example_config_def)
  have "steps example_run_start < train_max_steps (config example_run_start)" using h by simp
  from training_stops_at_max_steps [OF this h(4), where ext = example_externals] s h
  have "finish_train s \<and> steps s = 6 \<and> step_values (trace s) = [1, 2, 3, 4, 5, 6]"
    by (simp add: upto.simps)
  with s show ?thesis by blast
qed

text \<open>
  The claim as stated fails. The flag is tested only after a training step has been
  taken. The run of \<open>example_resumed_start\<close>, whose maximum is 6, whose counter is already
  6 and whose training loader holds two batches, takes a training step with the counter
  at 7 and then returns.
\<close>

theorem no_step_beyond_max_counterexample:
  "train_max_steps (config example_resumed_start) = 6 \<and>
   steps example_resumed_start = 6 \<and>
   map_option (step_values \<circ> trace \<circ> state_of) (run example_externals example_resumed_start) = Some [7]"
  using example_resumed_run
  by (simp add: example_resumed_start_def example_run_start_def example_trainer_def example_config_def)

section \<open>The training loop: the interval actions\<close>

lemma on_schedule_Done:
  "on_schedule st expected (Done s) \<longleftrightarrow>
     actions (trace s) = actions (trace st) @ expected \<and> accumulators_clean s"
  by (auto simp add: on_schedule_def)

lemma on_schedule_Raised:
  "on_schedule st expected (Raised e s) \<longleftrightarrow>
     (\<exists>X. actions (trace s) = actions (trace st) @ X \<and> prefix X expected)"
  by (simp add: on_schedule_def)

text \<open>Sequencing: a first part that returned, then a second part.\<close>

lemma on_schedule_seq:
  assumes "on_schedule st xs (Done s)" and "on_schedule s ys r"
  shows "on_schedule st (xs @ ys) r"
proof -
  from assms(2) obtain Y where Y: "actions (trace (state_of r)) = actions (trace s) @ Y"
    "prefix Y ys" "\<forall>s'. r = Done s' \<longrightarrow> Y = ys \<and> accumulators_clean s'"
    by (auto simp add: on_schedule_def)
  have "actions (trace (state_of r)) = actions (trace st) @ (xs @ Y)"
    using assms(1) Y(1) by (simp add: on_schedule_Done)
  moreover have "prefix (xs @ Y) (xs @ ys)" using Y(2) by simp
  ultimately show ?thesis using Y(3) unfolding on_schedule_def by blast
qed

lemma on_schedule_weaken:
  assumes "on_schedule st xs (Raised e s)"
  shows "on_schedule st (xs @ ys) (Raised e s)"
  using assms by (auto simp add: on_schedule_Raised intro: prefix_prefix)

lemma and_then_on_schedule:
  assumes "on_schedule st xs r"
      and "\<And>s. r = Done s \<Longrightarrow> on_schedule s ys (f s)"
  shows "on_schedule st (xs @ ys) (and_then r f)"
proof (cases r)
  case (Done s)
  then show ?thesis using on_schedule_seq [of st xs s ys "f s"] assms by simp
next
  case (Raised e s)
  then show ?thesis using on_schedule_weaken [of st xs e s ys] assms(1) by simp
qed

lemma run_actions_empty [simp]: "run_actions cfg a a = []"
  by (simp add: run_actions_def)

lemma run_actions_single [simp]: "run_actions cfg a (a + 1) = step_actions cfg (a + 1)"
  by (simp add: run_actions_def)

lemma run_actions_append:
  "a \<le> m \<Longrightarrow> m \<le> b \<Longrightarrow> run_actions cfg a m @ run_actions cfg m b = run_actions cfg a b"
  unfolding run_actions_def
  using upto_append_range [of a m b] by (metis concat_append map_append)

subsection \<open>The keys of the accumulators\<close>

lemma acc_add_keys: "fst ` set (acc_add ext d k v) = {k} \<union> fst ` set d"
  by (simp add: acc_add_def dom_update)

lemma acc_touch_keys: "fst ` set (acc_touch ext d k) = {k} \<union> fst ` set d"
  by (simp add: acc_touch_def dom_update)

lemma eval_step_keys:
  "fst ` set (total_eval_loss (state_of (eval_step ext st b)))
     = {''eval/onset_loss'', ''eval/score''} \<union> fst ` set (total_eval_loss st)"
  by (auto simp add: eval_step_def Let_def acc_add_keys acc_touch_keys split: sum.splits)

lemma eval_batches_keys:
  "fst ` set (total_eval_loss (state_of (eval_batches ext st bs)))
     \<subseteq> {''eval/onset_loss'', ''eval/score''} \<union> fst ` set (total_eval_loss st)"
proof (induction bs arbitrary: st)
  case Nil
  show ?case by auto
next
  case (Cons b bs)
  show ?case
  proof (cases "eval_step ext st b")
    case (Done s)
    then show ?thesis using Cons.IH [of s] eval_step_keys [of ext st b] by auto
  next
    case (Raised e s)
    then show ?thesis using eval_step_keys [of ext st b] by auto
  qed
qed

lemma train_loss_keys:
  assumes "d = [] \<or> map fst d = [''train/onset_loss'']"
  shows "map fst (acc_add ext d ''train/onset_loss'' v) = [''train/onset_loss'']"
proof -
  from assms consider "d = []" | x where "d = [(''train/onset_loss'', x)]"
    by (cases d) auto
  then show ?thesis by cases (simp_all add: acc_add_def)
qed

subsection \<open>One pass of the loop body is on schedule\<close>

lemma train_step_schedule:
  assumes "accumulators_clean st"
  shows "actions (trace (train_step ext st b)) = actions (trace st) @ [(Train, steps st + 1)]"
    and "map fst (total_train_loss (train_step ext st b)) = [''train/onset_loss'']"
    and "total_eval_loss (train_step ext st b) = []"
    and "total_eval_score (train_step ext st b) = []"
  using assms
  by (simp_all add: train_step_def check_train_finish_def Let_def split_def accumulators_clean_def
        train_loss_keys)

lemma check_log_interval_schedule:
  assumes "map fst (total_train_loss st) = [''train/onset_loss'']"
      and "total_eval_loss st = []" and "total_eval_score st = []"
  shows "on_schedule st (if steps st mod log_interval_steps (config st) = 0 then [(Log, steps st)] else [])
           (check_log_interval ext st)"
proof -
  from assms(1) obtain x where x: "total_train_loss st = [(''train/onset_loss'', x)]"
    by (cases "total_train_loss st") auto
  show ?thesis
    using assms(2,3)
    by (simp add: check_log_interval_def Let_def on_schedule_Done on_schedule_Raised x
          write_to_tensorboard_def acc_div_def accumulators_clean_def)
qed

lemma check_save_interval_schedule:
  assumes "accumulators_clean st"
  shows "on_schedule st (if steps st mod save_interval_steps (config st) = 0 then [(Save, steps st)] else [])
           (check_save_interval st)"
  using assms
  by (simp add: check_save_interval_def Let_def on_schedule_Done on_schedule_Raised
        save_checkpoint_def accumulators_clean_def)

lemma eval_epoch_schedule:
  assumes "accumulators_clean st"
  shows "on_schedule st [(Eval, steps st)] (eval_epoch ext st)"
proof -
  let ?st0 = "st\<lparr>trace := trace st @ [Log_eval_start (steps st)], training := False\<rparr>"
  have keys: "fst ` set (total_eval_loss (state_of (eval_batches ext ?st0 (eval_loader st))))
      \<subseteq> {''eval/onset_loss'', ''eval/score''}"
    using eval_batches_keys [of ext ?st0 "eval_loader st"] assms by (simp add: accumulators_clean_def)
  show ?thesis
  proof (cases "eval_batches ext ?st0 (eval_loader st)")
    case (Done st1)
    have k: "\<And>x. x \<in> set (total_eval_loss st1) \<Longrightarrow> fst x \<noteq> ''train/onset_loss''"
      using keys Done by auto
    have a: "actions (map (\<lambda>(k, v). Add_scalar k (fdiv ext v (final_batch_idx (eval_loader st))) (steps st))
                 (total_eval_loss st1)) = []"
      by (rule actions_map_nil) (use k in \<open>auto simp add: split_def\<close>)
    have b: "actions (map (\<lambda>(k, v). Log_metric k (fdiv ext v (final_batch_idx (eval_loader st))) (steps st))
                 (total_eval_loss st1)) = []"
      by (rule actions_map_nil) (simp add: split_def)
    show ?thesis
      using eval_epoch_Done [OF Done] assms a b
      by (simp add: on_schedule_Done accumulators_clean_def)
  next
    case (Raised e st1)
    define L where "L = total_eval_loss st1"
    have "st1 = ?st0\<lparr>total_eval_loss := L\<rparr>"
      using eval_batches_frame [of ext ?st0 "eval_loader st"] Raised by (simp add: L_def)
    then have "actions (trace st1) = actions (trace st) @ [(Eval, steps st)]" by simp
    then show ?thesis using Raised by (simp add: eval_epoch_def Let_def on_schedule_Raised)
  qed
qed

lemma check_eval_interval_schedule:
  assumes "accumulators_clean st"
  shows "on_schedule st (if steps st mod eval_interval_steps (config st) = 0 then [(Eval, steps st)] else [])
           (check_eval_interval ext st)"
  using assms eval_epoch_schedule [OF assms, of ext]
  by (simp add: check_eval_interval_def Let_def on_schedule_Done on_schedule_Raised)

lemma train_iteration_schedule:
  assumes "accumulators_clean st"
  shows "on_schedule st (step_actions (config st) (steps st + 1)) (train_iteration ext st b)"
proof -
  let ?s1 = "train_step ext st b"
  let ?k = "steps st + 1"
  let ?cfg = "config st"
  note ts = train_step_schedule [OF assms, of ext b]
  note tp = train_step_progress [of ext st b]
  have l: "on_schedule ?s1 (if ?k mod log_interval_steps ?cfg = 0 then [(Log, ?k)] else [])
             (check_log_interval ext ?s1)"
  proof -
    have st1: "steps ?s1 = ?k" "config ?s1 = ?cfg" using tp by simp_all
    show ?thesis using check_log_interval_schedule [OF ts(2,3,4), of ext] unfolding st1 .
  qed
  have s: "on_schedule s2 (if ?k mod save_interval_steps ?cfg = 0 then [(Save, ?k)] else [])
             (check_save_interval s2)"
    if "check_log_interval ext ?s1 = Done s2" for s2
  proof -
    have "same_progress ?s1 s2" using check_log_interval_progress [of ?s1 ext] that by simp
    then have e2: "steps s2 = ?k" "config s2 = ?cfg" using tp by (simp_all add: same_progress_def)
    have "accumulators_clean s2" using l that by (simp add: on_schedule_Done)
    from check_save_interval_schedule [OF this] show ?thesis unfolding e2 .
  qed
  have e: "on_schedule s3 (if ?k mod eval_interval_steps ?cfg = 0 then [(Eval, ?k)] else [])
             (check_eval_interval ext s3)"
    if "and_then (check_log_interval ext ?s1) check_save_interval = Done s3" for s3
  proof -
    from that obtain s2 where s2: "check_log_interval ext ?s1 = Done s2" "check_save_interval s2 = Done s3"
      by (cases "check_log_interval ext ?s1") auto
    have "same_progress ?s1 s2" using check_log_interval_progress [of ?s1 ext] s2 by simp
    moreover have "same_progress s2 s3" using check_save_interval_progress [of s2] s2 by simp
    ultimately have e3: "steps s3 = ?k" "config s3 = ?cfg" using tp by (simp_all add: same_progress_def)
    have "accumulators_clean s3" using s [OF s2(1)] s2(2) by (simp add: on_schedule_Done)
    from check_eval_interval_schedule [OF this, of ext] show ?thesis unfolding e3 .
  qed
  have "on_schedule ?s1
          (((if ?k mod log_interval_steps ?cfg = 0 then [(Log, ?k)] else [])
            @ (if ?k mod save_interval_steps ?cfg = 0 then [(Save, ?k)] else []))
           @ (if ?k mod eval_interval_steps ?cfg = 0 then [(Eval, ?k)] else []))
          (train_iteration ext st b)"
    unfolding train_iteration_def
    by (intro and_then_on_schedule l s e)
  then obtain X where X: "actions (trace (state_of (train_iteration ext st b))) = actions (trace ?s1) @ X"
    "prefix X ((if ?k mod log_interval_steps ?cfg = 0 then [(Log, ?k)] else [])
            @ (if ?k mod save_interval_steps ?cfg = 0 then [(Save, ?k)] else [])
            @ (if ?k mod eval_interval_steps ?cfg = 0 then [(Eval, ?k)] else []))"
    "\<forall>s. train_iteration ext st b = Done s \<longrightarrow>
       X = (if ?k mod log_interval_steps ?cfg = 0 then [(Log, ?k)] else [])
            @ (if ?k mod save_interval_steps ?cfg = 0 then [(Save, ?k)] else [])
            @ (if ?k mod eval_interval_steps ?cfg = 0 then [(Eval, ?k)] else []) \<and> accumulators_clean s"
    unfolding on_schedule_def by auto
  have "actions (trace (state_of (train_iteration ext st b))) = actions (trace st) @ ((Train, ?k) # X)"
    using X(1) ts(1) by simp
  moreover have "prefix ((Train, ?k) # X) (step_actions ?cfg ?k)"
    using X(2) by (simp add: step_actions_def)
  moreover have "\<forall>s. train_iteration ext st b = Done s \<longrightarrow>
      (Train, ?k) # X = step_actions ?cfg ?k \<and> accumulators_clean s"
    using X(3) by (simp add: step_actions_def)
  ultimately show ?thesis unfolding on_schedule_def by blast
qed

text \<open>
  When no interval is 0, the log and save checks return, and an exception can only come
  out of the evaluation pass, which has started by then: the actions of the pass over a
  batch are all there.
\<close>

lemma check_log_interval_returns:
  "log_interval_steps (config st) \<noteq> 0 \<Longrightarrow> \<exists>s. check_log_interval ext st = Done s"
  by (simp add: check_log_interval_def Let_def)

lemma check_save_interval_returns:
  "save_interval_steps (config st) \<noteq> 0 \<Longrightarrow> \<exists>s. check_save_interval st = Done s"
  by (simp add: check_save_interval_def Let_def)

lemma eval_epoch_actions:
  assumes "accumulators_clean st"
  shows "actions (trace (state_of (eval_epoch ext st))) = actions (trace st) @ [(Eval, steps st)]"
proof (cases "eval_epoch ext st")
  case (Done s)
  then show ?thesis using eval_epoch_schedule [OF assms, of ext] by (simp add: on_schedule_Done)
next
  case (Raised e s)
  let ?st0 = "st\<lparr>trace := trace st @ [Log_eval_start (steps st)], training := False\<rparr>"
  from Raised obtain st1 where r: "eval_batches ext ?st0 (eval_loader st) = Raised e st1" and s: "s = st1"
    by (cases "eval_batches ext ?st0 (eval_loader st)") (auto simp add: eval_epoch_def Let_def)
  define L where "L = total_eval_loss st1"
  have "st1 = ?st0\<lparr>total_eval_loss := L\<rparr>"
    using eval_batches_frame [of ext ?st0 "eval_loader st"] r by (simp add: L_def)
  then have "actions (trace st1) = actions (trace st) @ [(Eval, steps st)]" by simp
  then show ?thesis using Raised s by simp
qed

lemma check_eval_interval_actions:
  assumes "accumulators_clean st" and "eval_interval_steps (config st) \<noteq> 0"
  shows "actions (trace (state_of (check_eval_interval ext st)))
    = actions (trace st) @ (if steps st mod eval_interval_steps (config st) = 0 then [(Eval, steps st)] else [])"
  using assms eval_epoch_actions [OF assms(1), of ext]
  by (simp add: check_eval_interval_def Let_def)

lemma train_iteration_actions:
  assumes "accumulators_clean st" and "intervals_nonzero (config st)"
  shows "actions (trace (state_of (train_iteration ext st b)))
           = actions (trace st) @ step_actions (config st) (steps st + 1)"
proof -
  let ?s1 = "train_step ext st b"
  let ?k = "steps st + 1"
  let ?cfg = "config st"
  note ts = train_step_schedule [OF assms(1), of ext b]
  note tp = train_step_progress [of ext st b]
  have nz: "log_interval_steps ?cfg \<noteq> 0" "save_interval_steps ?cfg \<noteq> 0" "eval_interval_steps ?cfg \<noteq> 0"
    using assms(2) by (simp_all add: intervals_nonzero_def)
  have e1: "steps ?s1 = ?k" "config ?s1 = ?cfg" using tp by simp_all
  obtain s2 where s2: "check_log_interval ext ?s1 = Done s2"
    using check_log_interval_returns [of ?s1 ext] nz(1) e1(2) by auto
  have "same_progress ?s1 s2" using check_log_interval_progress [of ?s1 ext] s2 by simp
  then have e2: "steps s2 = ?k" "config s2 = ?cfg" using tp by (simp_all add: same_progress_def)
  obtain s3 where s3: "check_save_interval s2 = Done s3"
    using check_save_interval_returns [of s2] nz(2) e2(2) by auto
  have "same_progress s2 s3" using check_save_interval_progress [of s2] s3 by simp
  then have e3: "steps s3 = ?k" "config s3 = ?cfg" using e2 by (simp_all add: same_progress_def)
  have it: "train_iteration ext st b = check_eval_interval ext s3"
    by (simp add: train_iteration_def s2 s3)
  have l: "on_schedule ?s1 (if ?k mod log_interval_steps ?cfg = 0 then [(Log, ?k)] else []) (Done s2)"
    using check_log_interval_schedule [OF ts(2,3,4), of ext] unfolding e1 s2 .
  then have c2: "accumulators_clean s2" by (simp add: on_schedule_Done)
  have s: "on_schedule s2 (if ?k mod save_interval_steps ?cfg = 0 then [(Save, ?k)] else []) (Done s3)"
    using check_save_interval_schedule [OF c2] unfolding e2 s3 .
  then have c3: "accumulators_clean s3" by (simp add: on_schedule_Done)
  have e: "actions (trace (state_of (check_eval_interval ext s3)))
      = actions (trace s3) @ (if ?k mod eval_interval_steps ?cfg = 0 then [(Eval, ?k)] else [])"
    using check_eval_interval_actions [OF c3, of ext] nz(3) unfolding e3 by simp
  have a2: "actions (trace s2)
      = actions (trace ?s1) @ (if ?k mod log_interval_steps ?cfg = 0 then [(Log, ?k)] else [])"
    using l by (simp add: on_schedule_Done)
  have a3: "actions (trace s3)
      = actions (trace s2) @ (if ?k mod save_interval_steps ?cfg = 0 then [(Save, ?k)] else [])"
    using s by (simp add: on_schedule_Done)
  show ?thesis unfolding it e a3 a2 ts(1) by (simp add: step_actions_def)
qed

subsection \<open>Epochs and runs are on schedule\<close>

lemma epoch_end_clean:
  "actions (trace (epoch_end st)) = actions (trace st) \<and>
   (accumulators_clean st \<longrightarrow> accumulators_clean (epoch_end st))"
  by (simp add: epoch_end_def Let_def accumulators_clean_def)

lemma train_batches_schedule:
  "accumulators_clean st \<Longrightarrow>
   on_schedule st (run_actions (config st) (steps st) (steps (state_of (train_batches ext st bs))))
     (train_batches ext st bs)"
proof (induction st bs rule: train_batches_cases [where ext = ext])
  case (Nil st)
  show ?case using epoch_end_progress [of st] epoch_end_clean [of st] Nil
    by (simp add: on_schedule_Done)
next
  case (Stop st b bs)
  have "steps (state_of (train_iteration ext st b)) = steps st + 1"
    using train_iteration_progress [of ext st b] by simp
  then show ?case unfolding Stop(2) using train_iteration_schedule [OF Stop(3), of ext b] by simp
next
  case (Continue st b bs s)
  let ?r = "train_batches ext s bs"
  have s: "steps s = steps st + 1" "config s = config st"
    using train_iteration_progress [of ext st b] Continue(1) by simp_all
  have it: "on_schedule st (step_actions (config st) (steps st + 1)) (Done s)"
    using train_iteration_schedule [OF Continue(5), of ext b] Continue(1) by simp
  then have "accumulators_clean s" by (simp add: on_schedule_Done)
  from Continue(4) [OF this]
  have ih: "on_schedule s (run_actions (config st) (steps st + 1) (steps (state_of ?r))) ?r"
    unfolding s .
  have le: "steps st + 1 \<le> steps (state_of ?r)"
    using train_batches_steps [of s ext bs] s by simp
  have "step_actions (config st) (steps st + 1) @ run_actions (config st) (steps st + 1) (steps (state_of ?r))
      = run_actions (config st) (steps st) (steps (state_of ?r))"
    using run_actions_append [of "steps st" "steps st + 1" "steps (state_of ?r)" "config st"] le by simp
  with on_schedule_seq [OF it ih] show ?case unfolding Continue(3) by simp
qed

lemma run_loop_schedule_aux:
  assumes "run_loop ext st = Some r"
  shows "steps st \<le> steps (state_of r) \<and>
    (accumulators_clean st \<longrightarrow>
       on_schedule st (run_actions (config st) (steps st) (steps (state_of r))) r)"
  using assms
proof (induction rule: run_loop_cases)
  case (Stop st r)
  then show ?case
    using train_batches_schedule [of st ext "train_loader st"]
      train_batches_steps [of st ext "train_loader st"]
    by (simp add: train_epoch_def)
next
  case (Continue st s r)
  note u = train_epoch_unfinished [OF Continue(1,2)]
  have le: "steps s \<le> steps (state_of r)" using Continue(3) by simp
  have "on_schedule st (run_actions (config st) (steps st) (steps (state_of r))) r"
    if c: "accumulators_clean st"
  proof -
    have ep: "on_schedule st (run_actions (config st) (steps st) (steps s)) (Done s)"
      using train_batches_schedule [OF c, of ext "train_loader st"] Continue(1)
      by (simp add: train_epoch_def)
    then have "accumulators_clean s" by (simp add: on_schedule_Done)
    with Continue(3)
    have ih: "on_schedule s (run_actions (config st) (steps s) (steps (state_of r))) r"
      unfolding u(2) by simp
    have "run_actions (config st) (steps st) (steps s) @ run_actions (config st) (steps s) (steps (state_of r))
        = run_actions (config st) (steps st) (steps (state_of r))"
      by (rule run_actions_append) (use u(1) le in simp_all)
    with on_schedule_seq [OF ep ih] show ?thesis by simp
  qed
  then show ?case using u(1) le by simp
qed

lemma run_loop_schedule:
  assumes "run_loop ext st = Some r" and "accumulators_clean st"
  shows "on_schedule st (run_actions (config st) (steps st) (steps (state_of r))) r"
  using run_loop_schedule_aux [OF assms(1)] assms(2) by simp

lemma train_batches_actions:
  "accumulators_clean st \<Longrightarrow> intervals_nonzero (config st) \<Longrightarrow>
   actions (trace (state_of (train_batches ext st bs)))
     = actions (trace st) @ run_actions (config st) (steps st) (steps (state_of (train_batches ext st bs)))"
proof (induction st bs rule: train_batches_cases [where ext = ext])
  case (Nil st)
  show ?case using epoch_end_progress [of st] epoch_end_clean [of st] by simp
next
  case (Stop st b bs)
  have "steps (state_of (train_iteration ext st b)) = steps st + 1"
    using train_iteration_progress [of ext st b] by simp
  then show ?case unfolding Stop(2) using train_iteration_actions [OF Stop(3,4), of ext b] by simp
next
  case (Continue st b bs s)
  let ?r = "train_batches ext s bs"
  have s: "steps s = steps st + 1" "config s = config st"
    using train_iteration_progress [of ext st b] Continue(1) by simp_all
  have it: "on_schedule st (step_actions (config st) (steps st + 1)) (Done s)"
    using train_iteration_schedule [OF Continue(5), of ext b] Continue(1) by simp
  then have c: "accumulators_clean s"
    and a: "actions (trace s) = actions (trace st) @ step_actions (config st) (steps st + 1)"
    by (simp_all add: on_schedule_Done)
  have nz: "intervals_nonzero (config s)" using Continue(6) s(2) by simp
  have ih: "actions (trace (state_of ?r))
      = actions (trace s) @ run_actions (config st) (steps st + 1) (steps (state_of ?r))"
    using Continue(4) [OF c nz] unfolding s .
  have le: "steps st + 1 \<le> steps (state_of ?r)"
    using train_batches_steps [of s ext bs] s by simp
  have "step_actions (config st) (steps st + 1) @ run_actions (config st) (steps st + 1) (steps (state_of ?r))
      = run_actions (config st) (steps st) (steps (state_of ?r))"
    using run_actions_append [of "steps st" "steps st + 1" "steps (state_of ?r)" "config st"] le by simp
  then show ?case unfolding Continue(3) ih a by simp
qed

lemma run_loop_actions_aux:
  assumes "run_loop ext st = Some r"
  shows "steps st \<le> steps (state_of r) \<and>
    (accumulators_clean st \<and> intervals_nonzero (config st) \<longrightarrow>
     actions (trace (state_of r))
       = actions (trace st) @ run_actions (config st) (steps st) (steps (state_of r)))"
  using assms
proof (induction rule: run_loop_cases)
  case (Stop st r)
  then show ?case
    using train_batches_actions [of st ext "train_loader st"]
      train_batches_steps [of st ext "train_loader st"]
    by (auto simp add: train_epoch_def)
next
  case (Continue st s r)
  note u = train_epoch_unfinished [OF Continue(1,2)]
  have le: "steps s \<le> steps (state_of r)" using Continue(3) by simp
  have "actions (trace (state_of r))
       = actions (trace st) @ run_actions (config st) (steps st) (steps (state_of r))"
    if h: "accumulators_clean st \<and> intervals_nonzero (config st)"
  proof -
    from h have c: "accumulators_clean st" and nz: "intervals_nonzero (config st)" by simp_all
    have ep: "on_schedule st (run_actions (config st) (steps st) (steps s)) (Done s)"
      using train_batches_schedule [OF c, of ext "train_loader st"] Continue(1)
      by (simp add: train_epoch_def)
    then have cs: "accumulators_clean s"
      and a: "actions (trace s) = actions (trace st) @ run_actions (config st) (steps st) (steps s)"
      by (simp_all add: on_schedule_Done)
    have "accumulators_clean s \<and> intervals_nonzero (config s)" using cs nz u(2) by simp
    with Continue(3)
    have ih: "actions (trace (state_of r))
        = actions (trace s) @ run_actions (config st) (steps s) (steps (state_of r))"
      unfolding u(2) by simp
    have "run_actions (config st) (steps st) (steps s) @ run_actions (config st) (steps s) (steps (state_of r))
        = run_actions (config st) (steps st) (steps (state_of r))"
      by (rule run_actions_append) (use u(1) le in simp_all)
    then show ?thesis unfolding ih a by simp
  qed
  then show ?case using u(1) le by simp
qed

text \<open>
  C1. For a run started with clean accumulators, the actions it performs follow the
  schedule of the step counts it reaches: at every step count \<open>s\<close> the training step,
  then the log action iff \<open>s mod log_interval_steps = 0\<close>, the save action iff
  \<open>s mod save_interval_steps = 0\<close> and the eval action iff
  \<open>s mod eval_interval_steps = 0\<close>, each test on its own, in the order log, save, eval.
  The actions are exactly the schedule when the run returns, and also when it raises
  unless one of the intervals is 0; in that case a modulo test raises
  \<open>ZeroDivisionError\<close> and the actions are the schedule cut short at that test.
\<close>

theorem interval_actions_on_schedule:
  assumes "run ext st = Some r" and "accumulators_clean st"
  shows "\<exists>X. actions (trace (state_of r)) = actions (trace st) @ X \<and>
             prefix X (run_actions (config st) (steps st) (steps (state_of r))) \<and>
             ((\<exists>s. r = Done s) \<or> intervals_nonzero (config st) \<longrightarrow>
                X = run_actions (config st) (steps st) (steps (state_of r)))"
proof -
  from run_via_loop [OF assms(1)] obtain r' where r': "run_loop ext st = Some r'"
    "steps (state_of r) = steps (state_of r')"
    "actions (trace (state_of r)) = actions (trace (state_of r'))"
    "\<forall>s. r = Done s \<longrightarrow> (\<exists>s'. r' = Done s')"
    by (elim exE conjE) (rule that)
  let ?E = "run_actions (config st) (steps st) (steps (state_of r'))"
  from run_loop_schedule [OF r'(1) assms(2)] obtain X
    where X: "actions (trace (state_of r')) = actions (trace st) @ X" "prefix X ?E"
      "\<forall>s. r' = Done s \<longrightarrow> X = ?E \<and> accumulators_clean s"
    unfolding on_schedule_def by (elim exE conjE) (rule that)
  have "(\<exists>s. r = Done s) \<or> intervals_nonzero (config st) \<longrightarrow> X = ?E"
  proof
    assume "(\<exists>s. r = Done s) \<or> intervals_nonzero (config st)"
    then show "X = ?E"
    proof
      assume "\<exists>s. r = Done s"
      then obtain s where "r = Done s" ..
      with r'(4) obtain s' where "r' = Done s'" by blast
      with X(3) show ?thesis by simp
    next
      assume "intervals_nonzero (config st)"
      with run_loop_actions_aux [OF r'(1)] assms(2) X(1) show ?thesis by simp
    qed
  qed
  with X(1,2) have "actions (trace (state_of r')) = actions (trace st) @ X \<and> prefix X ?E \<and>
     ((\<exists>s. r = Done s) \<or> intervals_nonzero (config st) \<longrightarrow> X = ?E)" by simp
  then show ?thesis unfolding r'(2,3) by (rule exI)
qed

theorem interval_actions_on_schedule_witness:
  "\<exists>s. run example_externals example_run_start = Some (Done s) \<and>
       actions (trace s) =
         [(Train, 1), (Log, 1), (Train, 2), (Log, 2), (Save, 2), (Train, 3), (Log, 3), (Eval, 3),
          (Train, 4), (Log, 4), (Save, 4), (Train, 5), (Log, 5),
          (Train, 6), (Log, 6), (Save, 6), (Eval, 6)]"
proof -
  from example_run_returns obtain s
    where s: "run example_externals example_run_start = Some (Done s)" "steps s = 6" by blast
  have h: "steps example_run_start = 0" "trace example_run_start = []"
    "config example_run_start = example_config 1 2 3 6" "accumulators_clean example_run_start"
    by (simp_all add: example_run_start_def example_trainer_def accumulators_clean_def)
  from interval_actions_on_schedule [OF s(1) h(4)]
  have "actions (trace s) = run_actions (example_config 1 2 3 6) 0 6"
    using h s(2) by simp
  also have "\<dots> = [(Train, 1), (Log, 1), (Train, 2), (Log, 2), (Save, 2), (Train, 3), (Log, 3), (Eval, 3),
          (Train, 4), (Log, 4), (Save, 4), (Train, 5), (Log, 5),
          (Train, 6), (Log, 6), (Save, 6), (Eval, 6)]"
    by (simp add: run_actions_def step_actions_def example_config_def upto.simps)
  finally show ?thesis using s(1) by blast
qed

subsection \<open>Checkpoints written by a run\<close>












end
